theory Spec2Isabelle
  imports Complex_Main "HOL-Library.AList"
begin

section \<open>Text: code points, UTF-8 lengths, character classes\<close>

text \<open>
  A Python \<open>str\<close> is a sequence of Unicode code points; \<open>len(s)\<close> counts code points and
  \<open>len(s.encode('utf-8'))\<close> counts bytes. Both occur in the analyzers, so a string is a
  list of code points and the byte length is computed from them.
\<close>

type_synonym ustring = "nat list"

definition ustr :: "string \<Rightarrow> ustring" where
  "ustr s = map of_char s"

definition utf8_len :: "nat \<Rightarrow> nat" where
  "utf8_len c = (if c < 128 then 1 else if c < 2048 then 2 else if c < 65536 then 3 else 4)"

text \<open>\<open>len(s.encode('utf-8'))\<close>\<close>

definition blen :: "ustring \<Rightarrow> int" where
  "blen s = int (sum_list (map utf8_len s))"

text \<open>
  The regular expressions of the analyzers are \<open>str\<close> patterns, so \<open>\s\<close>, \<open>\w\<close> and \<open>\d\<close>
  are the Unicode classes. \<open>\s\<close> is \<open>str.isspace\<close>, a short fixed list. \<open>\w\<close> is
  \<open>str.isalnum\<close> or the underscore and \<open>\d\<close> is the category Nd; beyond ASCII both are
  tables of the Unicode database, which are taken as a parameter. No Unicode white space
  is alphanumeric, so the tables are consulted on the other code points only.
\<close>

record unicode_db =
  alnum :: "nat \<Rightarrow> bool"
  decimal :: "nat \<Rightarrow> nat option"

definition is_space :: "nat \<Rightarrow> bool" where
  "is_space c \<longleftrightarrow>
     (9 \<le> c \<and> c \<le> 13) \<or> (28 \<le> c \<and> c \<le> 32) \<or> c = 133 \<or> c = 160 \<or> c = 5760 \<or>
     (8192 \<le> c \<and> c \<le> 8202) \<or> c = 8232 \<or> c = 8233 \<or> c = 8239 \<or> c = 8287 \<or> c = 12288"

definition is_digit :: "unicode_db \<Rightarrow> nat \<Rightarrow> bool" where
  "is_digit U c \<longleftrightarrow>
     (if c < 128 then 48 \<le> c \<and> c \<le> 57 else \<not> is_space c \<and> decimal U c \<noteq> None)"

definition digit_value :: "unicode_db \<Rightarrow> nat \<Rightarrow> nat" where
  "digit_value U c =
     (if c < 128 then c - 48 else (case decimal U c of Some d \<Rightarrow> d | None \<Rightarrow> 0))"

definition is_w :: "unicode_db \<Rightarrow> nat \<Rightarrow> bool" where
  "is_w U c \<longleftrightarrow>
     (if c < 128
      then (48 \<le> c \<and> c \<le> 57) \<or> (65 \<le> c \<and> c \<le> 90) \<or> (97 \<le> c \<and> c \<le> 122) \<or> c = 95
      else \<not> is_space c \<and> alnum U c)"

text \<open>The class \<open>[\w\d]\<close>.\<close>

definition is_word :: "unicode_db \<Rightarrow> nat \<Rightarrow> bool" where
  "is_word U c \<longleftrightarrow> is_w U c \<or> is_digit U c"

text \<open>The class \<open>[\w\d,-]\<close>.\<close>

definition is_cmd_id :: "unicode_db \<Rightarrow> nat \<Rightarrow> bool" where
  "is_cmd_id U c \<longleftrightarrow> is_word U c \<or> c = 44 \<or> c = 45"

text \<open>The table for ASCII-only input: no code point beyond 127 is a letter or a digit.\<close>

definition ascii_db :: unicode_db where
  "ascii_db = \<lparr>alnum = (\<lambda>c. False), decimal = (\<lambda>c. None)\<rparr>"

section \<open>Base58\<close>

definition BASE58_ALPHABET :: ustring where
  "BASE58_ALPHABET = ustr ''123456789ABCDEFGHJKLMNPQRSTUVWXYZabcdefghijkmnopqrstuvwxyz''"

text \<open>\<open>{char: index for index, char in enumerate(BASE58_ALPHABET)}\<close>; the keys are distinct.\<close>

definition BASE58_MAP :: "(nat \<times> int) list" where
  "BASE58_MAP = zip BASE58_ALPHABET (map int [0..<length BASE58_ALPHABET])"

definition BASE :: int where
  "BASE = int (length BASE58_ALPHABET)"

text \<open>
  The argument of \<open>decodeBase58\<close> is any Python object: a string, or something else, of
  which only the truth value is looked at.
\<close>

datatype pyobj = PyStr ustring | PyOther bool

text \<open>The loop over \<open>reversed(encoded)\<close>, with its early return.\<close>

fun decode_loop :: "ustring \<Rightarrow> int \<Rightarrow> int \<Rightarrow> int" where
  "decode_loop [] decoded multi = decoded"
| "decode_loop (char # cs) decoded multi =
     (case map_of BASE58_MAP char of
        None \<Rightarrow> - 1
      | Some digit \<Rightarrow> decode_loop cs (decoded + digit * multi) (multi * BASE))"

fun decodeBase58 :: "pyobj \<Rightarrow> int" where
  "decodeBase58 (PyOther truthy) = - 1"
| "decodeBase58 (PyStr encoded) =
     (if encoded = [] then - 1 else decode_loop (rev encoded) 0 1)"

text \<open>The position of a character in the alphabet, as the specification uses it.\<close>

definition b58_index :: "nat \<Rightarrow> nat" where
  "b58_index c = length (takeWhile (\<lambda>x. x \<noteq> c) BASE58_ALPHABET)"

section \<open>The regular expressions\<close>

text \<open>
  Each pattern is translated into the scan it performs. The classes that follow one
  another in a pattern are disjoint (a word character is never white space, white space
  is never a letter or a digit), so the greedy repetitions never have to give back
  characters: a repetition takes the longest run, and the match fails if the next
  character of the pattern does not follow it.
\<close>

text \<open>\<open>$\<close>: at the end of the string, or just before a newline that ends the string.\<close>

definition at_eol :: "ustring \<Rightarrow> bool" where
  "at_eol s \<longleftrightarrow> s = [] \<or> s = [10]"

text \<open>\<open>.*$\<close> without DOTALL: the dot is any code point but the newline.\<close>

definition dot_star_eol :: "ustring \<Rightarrow> bool" where
  "dot_star_eol s \<longleftrightarrow> at_eol (dropWhile (\<lambda>c. c \<noteq> 10) s)"

text \<open>
  \<open>re.compile(r'^(@[\w\d]+)\s(.*)$', re.DOTALL).match(line)\<close>, giving the groups 1 and 2.
  With DOTALL the last group takes the rest of the line whatever it holds.
\<close>

definition def_regex :: "unicode_db \<Rightarrow> ustring \<Rightarrow> (ustring \<times> ustring) option" where
  "def_regex U line =
     (case line of
        [] \<Rightarrow> None
      | c # r \<Rightarrow>
          (case dropWhile (is_word U) r of
             [] \<Rightarrow> None
           | sp # content \<Rightarrow>
               if c = 64 \<and> takeWhile (is_word U) r \<noteq> [] \<and> is_space sp
               then Some (64 # takeWhile (is_word U) r, content)
               else None))"

text \<open>\<open>re.compile(r'^(@[\w\d]+)$').match(line)\<close>, giving the group 1.\<close>

definition def_regex_no_content :: "unicode_db \<Rightarrow> ustring \<Rightarrow> ustring option" where
  "def_regex_no_content U line =
     (case line of
        [] \<Rightarrow> None
      | c # r \<Rightarrow>
          if c = 64 \<and> takeWhile (is_word U) r \<noteq> [] \<and> at_eol (dropWhile (is_word U) r)
          then Some (64 # takeWhile (is_word U) r)
          else None)"

text \<open>
  \<open>re.compile(r'^([\w\d]+)\s+([AD]\+)\s+(\d+)$').match(line)\<close>, giving the groups
  1, 2 and 3.
\<close>

definition block_header_regex ::
  "unicode_db \<Rightarrow> ustring \<Rightarrow> (ustring \<times> ustring \<times> ustring) option" where
  "block_header_regex U line =
     (let ident = takeWhile (is_word U) line;
          r1 = dropWhile (is_word U) line
      in case dropWhile is_space r1 of
           t # p # r2 \<Rightarrow>
             if ident \<noteq> [] \<and> takeWhile is_space r1 \<noteq> [] \<and> (t = 65 \<or> t = 68) \<and> p = 43 \<and>
                takeWhile is_space r2 \<noteq> [] \<and>
                takeWhile (is_digit U) (dropWhile is_space r2) \<noteq> [] \<and>
                at_eol (dropWhile (is_digit U) (dropWhile is_space r2))
             then Some (ident, [t, p], takeWhile (is_digit U) (dropWhile is_space r2))
             else None
         | _ \<Rightarrow> None)"

text \<open>
  \<open>int(s)\<close> on a string of decimal digits. CPython refuses to convert a string of more
  than \<open>sys.int_info.default_max_str_digits\<close> = 4300 digits (leading zeros counted) and
  raises \<open>ValueError\<close>, as it does on the empty string. The analyzers call \<open>int\<close> outside
  any \<open>try\<close>, so the exception ends the analysis.
\<close>

datatype py_error = ValueError

definition int_max_str_digits :: nat where
  "int_max_str_digits = 4300"

definition int_of_digits :: "unicode_db \<Rightarrow> ustring \<Rightarrow> py_error + int" where
  "int_of_digits U ds =
     (if ds = [] \<or> length ds > int_max_str_digits then Inl ValueError
      else Inr (foldl (\<lambda>acc c. acc * 10 + int (digit_value U c)) 0 ds))"

text \<open>
  \<open>re.match(r'^[\w\d,-]+\s+[ad].*$', line)\<close> and \<open>re.match(r'^[\w\d,-]+\s+[MR].*$', line)\<close>:
  the same pattern with two sets of command letters.
\<close>

definition command_regex :: "unicode_db \<Rightarrow> ustring \<Rightarrow> ustring \<Rightarrow> bool" where
  "command_regex U letters line =
     (let r1 = dropWhile (is_cmd_id U) line
      in takeWhile (is_cmd_id U) line \<noteq> [] \<and> takeWhile is_space r1 \<noteq> [] \<and>
         (case dropWhile is_space r1 of
            [] \<Rightarrow> False
          | c # r2 \<Rightarrow> c \<in> set letters \<and> dot_star_eol r2))"

definition is_command :: "unicode_db \<Rightarrow> ustring \<Rightarrow> bool" where
  "is_command U line \<longleftrightarrow>
     command_regex U (ustr ''ad'') line \<or> command_regex U (ustr ''MR'') line"

text \<open>
  \<open>re.compile(r'^(\s+.*|.*[};])$').match(content)\<close>. Here white space may have to be
  given back to the dot (a newline is white space and not a dot), so every split is tried:
  the first alternative after each non-empty run of leading white space, the second at
  every position that the dots can reach.
\<close>

definition full_line_heuristic_regex :: "ustring \<Rightarrow> bool" where
  "full_line_heuristic_regex content \<longleftrightarrow>
     list_ex (\<lambda>k. dot_star_eol (drop k content))
       [1..<Suc (length (takeWhile is_space content))] \<or>
     list_ex (\<lambda>j. j < length content \<and> (content ! j = 125 \<or> content ! j = 59) \<and>
                  at_eol (drop (Suc j) content))
       [0..<Suc (length (takeWhile (\<lambda>c. c \<noteq> 10) content))]"

text \<open>
  \<open>findall\<close> for the reference pattern: at an \<open>@\<close> followed by a word character the
  match is the \<open>@\<close> and the longest run of word characters, and the scan goes on after
  it; anywhere else it moves one character on. The result lists the identifiers, without
  the \<open>@\<close>.
\<close>

function var_usage_scan :: "unicode_db \<Rightarrow> ustring \<Rightarrow> ustring list" where
  "var_usage_scan U [] = []"
| "var_usage_scan U (c # r) =
     (if c = 64 \<and> takeWhile (is_word U) r \<noteq> []
      then takeWhile (is_word U) r # var_usage_scan U (dropWhile (is_word U) r)
      else var_usage_scan U r)"
  by pat_completeness auto
termination
  by (relation "measure (\<lambda>(U, s). length s)") (auto simp: length_dropWhile_le le_imp_less_Suc)

text \<open>v1: \<open>re.compile(r'@([\w\d]+)').findall(content)\<close>, the list of the groups.\<close>

definition var_usage_findall_v1 :: "unicode_db \<Rightarrow> ustring \<Rightarrow> ustring list" where
  "var_usage_findall_v1 U content = var_usage_scan U content"

text \<open>v2: \<open>re.compile(r'(@[\w\d]+)').findall(content)\<close>, the list of the whole tokens.\<close>

definition var_usage_findall_v2 :: "unicode_db \<Rightarrow> ustring \<Rightarrow> ustring list" where
  "var_usage_findall_v2 U content = map ((#) 64) (var_usage_scan U content)"

text \<open>
  \<open>re.compile(r'#(\d+)\s').findall(content)\<close>: at a \<open>#\<close> followed by digits and one
  white space character the match ends after that character; the result lists the digits.
\<close>

function literal_gap_findall :: "unicode_db \<Rightarrow> ustring \<Rightarrow> ustring list" where
  "literal_gap_findall U [] = []"
| "literal_gap_findall U (c # r) =
     (case dropWhile (is_digit U) r of
        [] \<Rightarrow> literal_gap_findall U r
      | sp # r' \<Rightarrow>
          if c = 35 \<and> takeWhile (is_digit U) r \<noteq> [] \<and> is_space sp
          then takeWhile (is_digit U) r # literal_gap_findall U r'
          else literal_gap_findall U r)"
  by pat_completeness auto
termination
proof (relation "measure (\<lambda>(U, s). length s)")
  show "wf (measure (\<lambda>(U, s). length s))" by simp
next
  fix U :: unicode_db and c :: nat and r :: ustring
  show "((U, r), (U, c # r)) \<in> measure (\<lambda>(U, s). length s)" by simp
next
  fix U :: unicode_db and c :: nat and r :: ustring and sp :: nat and r' :: ustring
  assume "dropWhile (is_digit U) r = sp # r'"
  then have "length r' < length (dropWhile (is_digit U) r)" by simp
  also have "\<dots> \<le> length r" by (rule length_dropWhile_le)
  finally show "((U, r'), (U, c # r)) \<in> measure (\<lambda>(U, s). length s)" by simp
next
  fix U :: unicode_db and c :: nat and r :: ustring
  show "((U, r), (U, c # r)) \<in> measure (\<lambda>(U, s). length s)" by simp
qed

text \<open>The sum of \<open>len(f"#{gap_len_str} ")\<close> over the gaps found: characters, not bytes.\<close>

definition gap_overhead :: "unicode_db \<Rightarrow> ustring \<Rightarrow> int" where
  "gap_overhead U content =
     sum_list (map (\<lambda>gap_len_str. int (length gap_len_str) + 2) (literal_gap_findall U content))"

section \<open>Reading the file\<close>

text \<open>
  \<open>f.readlines()\<close> on the decoded text (newlines already translated to \<open>\n\<close>): every line
  keeps its newline, the last line may have none.
\<close>

fun readlines :: "ustring \<Rightarrow> ustring list" where
  "readlines [] = []"
| "readlines (c # cs) =
     (if c = 10 then [c] # readlines cs
      else (case readlines cs of [] \<Rightarrow> [[c]] | l # ls \<Rightarrow> (c # l) # ls))"

text \<open>\<open>line.rstrip('\n')\<close>\<close>

definition rstrip_nl :: "ustring \<Rightarrow> ustring" where
  "rstrip_nl line = rev (dropWhile (\<lambda>c. c = 10) (rev line))"

text \<open>\<open>line.startswith(('a ', 'd ', 'A ', 'D '))\<close>\<close>

definition has_block_prefix :: "ustring \<Rightarrow> bool" where
  "has_block_prefix line \<longleftrightarrow>
     take 2 line = ustr ''a '' \<or> take 2 line = ustr ''d '' \<or>
     take 2 line = ustr ''A '' \<or> take 2 line = ustr ''D ''"

section \<open>The statistics and the loop state\<close>

text \<open>
  Both analyzers keep the same counters in \<open>stats\<close>, the two dictionaries \<open>defined_vars\<close>
  and \<open>used_vars_count\<close>, and the block state. A dictionary is an association list in
  insertion order with distinct keys; all the numbers are Python integers.
\<close>

record stats =
  total_lines :: int
  total_size_b :: int
  compression_flag :: bool
  definition_lines :: int
  definition_size_b :: int
  definition_at_overhead_b :: int
  command_lines :: int
  command_size_b :: int
  literal_gap_overhead_b :: int
  block_prefix_overhead_b :: int
  other_lines :: int
  other_size_b :: int
  defined_vars :: "(ustring \<times> ustring) list"
  used_vars_count :: "(ustring \<times> int) list"
  in_block :: bool
  block_lines_remaining :: int

record state_v1 = stats +
  command_at_overhead_b :: int

record state_v2 = stats +
  total_reference_cost_b :: int
  total_replaced_bytes :: int
  full_line_vars :: "ustring set"
  fragment_vars :: "ustring set"
  full_line_replaced_b :: int
  full_line_ref_cost_b :: int
  fragment_replaced_b :: int
  fragment_ref_cost_b :: int
  parsing_definitions :: bool

text \<open>
  The branch of the loop body that a line takes. The analyzers do not store it; the
  model returns it with the new state, so that the classification can be stated.
\<close>

datatype line_kind = Marker | Definition | BlockHeader | BlockBody | Command | Other

text \<open>\<open>used_vars_count[name] += 1\<close> on a \<open>defaultdict(int)\<close>\<close>

definition count_usage :: "(ustring \<times> int) list \<Rightarrow> ustring \<Rightarrow> (ustring \<times> int) list" where
  "count_usage counts name =
     AList.update name ((case map_of counts name of None \<Rightarrow> 0 | Some n \<Rightarrow> n) + 1) counts"

section \<open>The v1 analyzer (\<open>analyze_patch.py\<close>)\<close>

definition init_v1 :: "int \<Rightarrow> state_v1" where
  "init_v1 size_b =
     \<lparr>total_lines = 0, total_size_b = size_b, compression_flag = False,
      definition_lines = 0, definition_size_b = 0, definition_at_overhead_b = 0,
      command_lines = 0, command_size_b = 0, literal_gap_overhead_b = 0,
      block_prefix_overhead_b = 0, other_lines = 0, other_size_b = 0,
      defined_vars = [], used_vars_count = [], in_block = False,
      block_lines_remaining = 0, command_at_overhead_b = 0\<rparr>"

text \<open>
  The scan of a content string, written twice in the source (block body and standalone
  command): count the usages, H3 is their number, H4 the length of the gap headers.
\<close>

definition scan_v1 :: "unicode_db \<Rightarrow> state_v1 \<Rightarrow> ustring \<Rightarrow> state_v1" where
  "scan_v1 U st content =
     (let usages = var_usage_findall_v1 U content
      in st\<lparr>used_vars_count :=
               foldl count_usage (used_vars_count st) (map (\<lambda>var_id. 64 # var_id) usages),
            command_at_overhead_b := command_at_overhead_b st + int (length usages),
            literal_gap_overhead_b := literal_gap_overhead_b st + gap_overhead U content\<rparr>)"

definition block_body_v1 :: "unicode_db \<Rightarrow> state_v1 \<Rightarrow> ustring \<Rightarrow> state_v1" where
  "block_body_v1 U st line =
     (let st1 = st\<lparr>command_lines := command_lines st + 1,
                   command_size_b := command_size_b st + blen line\<rparr>;
          st2 = (if has_block_prefix line
                 then scan_v1 U
                        (st1\<lparr>block_prefix_overhead_b := block_prefix_overhead_b st1 + 2\<rparr>)
                        (drop 2 line)
                 else scan_v1 U st1 line);
          st3 = st2\<lparr>block_lines_remaining := block_lines_remaining st2 - 1\<rparr>
      in if block_lines_remaining st3 = 0 then st3\<lparr>in_block := False\<rparr> else st3)"

text \<open>
  The loop body after the marker test. It gives the branch taken and the new state, or
  the exception that \<open>int\<close> raises on the count of a block header.
\<close>

definition dispatch_v1 ::
  "unicode_db \<Rightarrow> state_v1 \<Rightarrow> ustring \<Rightarrow> py_error + line_kind \<times> state_v1" where
  "dispatch_v1 U st line =
     (if in_block st then Inr (BlockBody, block_body_v1 U st line)
      else (case def_regex U line of
              Some (var_name, content) \<Rightarrow>
                Inr (Definition,
                     st\<lparr>defined_vars := AList.update var_name content (defined_vars st),
                        definition_lines := definition_lines st + 1,
                        definition_size_b := definition_size_b st + blen line,
                        definition_at_overhead_b := definition_at_overhead_b st + 1\<rparr>)
            | None \<Rightarrow>
                (case block_header_regex U line of
                   Some (ident, tag, digits) \<Rightarrow>
                     (case int_of_digits U digits of
                        Inl e \<Rightarrow> Inl e
                      | Inr count \<Rightarrow>
                          Inr (BlockHeader,
                               st\<lparr>command_lines := command_lines st + 1,
                                  command_size_b := command_size_b st + blen line,
                                  block_lines_remaining := count,
                                  in_block := count > 0\<rparr>))
                 | None \<Rightarrow>
                     if is_command U line
                     then Inr (Command,
                               scan_v1 U
                                 (st\<lparr>command_lines := command_lines st + 1,
                                     command_size_b := command_size_b st + blen line\<rparr>)
                                 line)
                     else Inr (Other,
                               st\<lparr>other_lines := other_lines st + 1,
                                  other_size_b := other_size_b st + blen line\<rparr>))))"

definition step_v1 ::
  "unicode_db \<Rightarrow> state_v1 \<Rightarrow> nat \<Rightarrow> ustring \<Rightarrow> py_error + line_kind \<times> state_v1" where
  "step_v1 U st0 line_num raw =
     (let line = rstrip_nl raw;
          st = st0\<lparr>total_lines := total_lines st0 + 1\<rparr>
      in if line_num = 0 \<and> line = ustr ''~''
         then Inr (Marker, st\<lparr>compression_flag := True\<rparr>)
         else dispatch_v1 U st line)"

text \<open>
  The loop \<open>for line_num, line in enumerate(lines)\<close>: the final state, or the exception
  that ended the loop; and the branches taken by the lines that were processed.
\<close>

fun loop_v1 :: "unicode_db \<Rightarrow> state_v1 \<Rightarrow> nat \<Rightarrow> ustring list \<Rightarrow> py_error + state_v1" where
  "loop_v1 U st n [] = Inr st"
| "loop_v1 U st n (l # ls) =
     (case step_v1 U st n l of
        Inl e \<Rightarrow> Inl e
      | Inr (kind, st') \<Rightarrow> loop_v1 U st' (Suc n) ls)"

fun kinds_v1 :: "unicode_db \<Rightarrow> state_v1 \<Rightarrow> nat \<Rightarrow> ustring list \<Rightarrow> line_kind list" where
  "kinds_v1 U st n [] = []"
| "kinds_v1 U st n (l # ls) =
     (case step_v1 U st n l of
        Inl e \<Rightarrow> []
      | Inr (kind, st') \<Rightarrow> kind # kinds_v1 U st' (Suc n) ls)"

text \<open>
  What the \<open>try\<close> block obtains: the size that the file system reports and the decoded
  text, or an exception (\<open>None\<close>), on which the analyzer prints an error and returns.
\<close>

type_synonym file_read = "(int \<times> ustring) option"

text \<open>The state at the end of the loop, for a file of the given size and text.\<close>

definition final_v1 :: "unicode_db \<Rightarrow> int \<Rightarrow> ustring \<Rightarrow> py_error + state_v1" where
  "final_v1 U size_b text = loop_v1 U (init_v1 size_b) 0 (readlines text)"

text \<open>
  The whole function: an exception of the loop, no report after a failed read, or the
  state that the report is printed from.
\<close>

definition analyze_patch_v1 :: "unicode_db \<Rightarrow> file_read \<Rightarrow> py_error + state_v1 option" where
  "analyze_patch_v1 U file =
     (case file of
        None \<Rightarrow> Inr None
      | Some (size_b, text) \<Rightarrow> map_sum id Some (final_v1 U size_b text))"

section \<open>The v2 analyzer (\<open>analyze_patch_saving.py\<close>)\<close>

definition init_v2 :: "int \<Rightarrow> state_v2" where
  "init_v2 size_b =
     \<lparr>total_lines = 0, total_size_b = size_b, compression_flag = False,
      definition_lines = 0, definition_size_b = 0, definition_at_overhead_b = 0,
      command_lines = 0, command_size_b = 0, literal_gap_overhead_b = 0,
      block_prefix_overhead_b = 0, other_lines = 0, other_size_b = 0,
      defined_vars = [], used_vars_count = [], in_block = False,
      block_lines_remaining = 0,
      total_reference_cost_b = 0, total_replaced_bytes = 0,
      full_line_vars = {}, fragment_vars = {},
      full_line_replaced_b = 0, full_line_ref_cost_b = 0,
      fragment_replaced_b = 0, fragment_ref_cost_b = 0,
      parsing_definitions = True\<rparr>"

text \<open>The body of \<open>for full_var_name in usages\<close>.\<close>

definition use_ref_v2 :: "state_v2 \<Rightarrow> ustring \<Rightarrow> state_v2" where
  "use_ref_v2 st full_var_name =
     (let ref_cost_b = blen full_var_name;
          st1 = st\<lparr>used_vars_count := count_usage (used_vars_count st) full_var_name,
                   total_reference_cost_b := total_reference_cost_b st + ref_cost_b\<rparr>
      in case map_of (defined_vars st1) full_var_name of
           None \<Rightarrow> st1
         | Some replaced_content \<Rightarrow>
             (let replaced_b = blen replaced_content;
                  st2 = st1\<lparr>total_replaced_bytes := total_replaced_bytes st1 + replaced_b\<rparr>
              in if full_var_name \<in> full_line_vars st2
                 then st2\<lparr>full_line_replaced_b := full_line_replaced_b st2 + replaced_b,
                          full_line_ref_cost_b := full_line_ref_cost_b st2 + ref_cost_b\<rparr>
                 else st2\<lparr>fragment_replaced_b := fragment_replaced_b st2 + replaced_b,
                          fragment_ref_cost_b := fragment_ref_cost_b st2 + ref_cost_b\<rparr>))"

text \<open>The usage analysis and the H4 count, written twice in the source.\<close>

definition scan_v2 :: "unicode_db \<Rightarrow> state_v2 \<Rightarrow> ustring \<Rightarrow> state_v2" where
  "scan_v2 U st content =
     (let st1 = foldl use_ref_v2 st (var_usage_findall_v2 U content)
      in st1\<lparr>literal_gap_overhead_b := literal_gap_overhead_b st1 + gap_overhead U content\<rparr>)"

definition block_body_v2 :: "unicode_db \<Rightarrow> state_v2 \<Rightarrow> ustring \<Rightarrow> state_v2" where
  "block_body_v2 U st line =
     (let st1 = st\<lparr>command_lines := command_lines st + 1,
                   command_size_b := command_size_b st + blen line\<rparr>;
          st2 = (if has_block_prefix line
                 then scan_v2 U
                        (st1\<lparr>block_prefix_overhead_b := block_prefix_overhead_b st1 + 2\<rparr>)
                        (drop 2 line)
                 else scan_v2 U st1 line);
          st3 = st2\<lparr>block_lines_remaining := block_lines_remaining st2 - 1\<rparr>
      in if block_lines_remaining st3 = 0 then st3\<lparr>in_block := False\<rparr> else st3)"

text \<open>The part of the loop body after the definitions ("Cycle 2").\<close>

definition commands_v2 ::
  "unicode_db \<Rightarrow> state_v2 \<Rightarrow> ustring \<Rightarrow> py_error + line_kind \<times> state_v2" where
  "commands_v2 U st line =
     (if in_block st then Inr (BlockBody, block_body_v2 U st line)
      else (case block_header_regex U line of
              Some (ident, tag, digits) \<Rightarrow>
                (case int_of_digits U digits of
                   Inl e \<Rightarrow> Inl e
                 | Inr count \<Rightarrow>
                     Inr (BlockHeader,
                          st\<lparr>command_lines := command_lines st + 1,
                             command_size_b := command_size_b st + blen line,
                             block_lines_remaining := count,
                             in_block := count > 0\<rparr>))
            | None \<Rightarrow>
                if is_command U line
                then Inr (Command,
                          scan_v2 U
                            (st\<lparr>command_lines := command_lines st + 1,
                                command_size_b := command_size_b st + blen line\<rparr>)
                            line)
                else Inr (Other,
                          st\<lparr>other_lines := other_lines st + 1,
                             other_size_b := other_size_b st + blen line\<rparr>)))"

text \<open>The bookkeeping of a definition line; \<open>full\<close> is the outcome of the heuristic.\<close>

definition record_definition ::
  "state_v2 \<Rightarrow> ustring \<Rightarrow> ustring \<Rightarrow> int \<Rightarrow> bool \<Rightarrow> state_v2" where
  "record_definition st var_name content line_len_b full =
     (let st1 = st\<lparr>defined_vars := AList.update var_name content (defined_vars st),
                   definition_lines := definition_lines st + 1,
                   definition_size_b := definition_size_b st + line_len_b,
                   definition_at_overhead_b := definition_at_overhead_b st + 1\<rparr>
      in if full then st1\<lparr>full_line_vars := insert var_name (full_line_vars st1)\<rparr>
         else st1\<lparr>fragment_vars := insert var_name (fragment_vars st1)\<rparr>)"

text \<open>The part of the loop body that collects the definitions ("Cycle 1").\<close>

definition definitions_v2 ::
  "unicode_db \<Rightarrow> state_v2 \<Rightarrow> ustring \<Rightarrow> py_error + line_kind \<times> state_v2" where
  "definitions_v2 U st line =
     (if parsing_definitions st
      then (case def_regex U line of
              Some (var_name, content) \<Rightarrow>
                Inr (Definition,
                     record_definition st var_name content (blen line)
                       (int (length content) > 5 \<and> full_line_heuristic_regex content))
            | None \<Rightarrow>
                (case def_regex_no_content U line of
                   Some var_name \<Rightarrow>
                     Inr (Definition, record_definition st var_name [] (blen line) False)
                 | None \<Rightarrow> commands_v2 U (st\<lparr>parsing_definitions := False\<rparr>) line))
      else commands_v2 U st line)"

definition step_v2 ::
  "unicode_db \<Rightarrow> state_v2 \<Rightarrow> nat \<Rightarrow> ustring \<Rightarrow> py_error + line_kind \<times> state_v2" where
  "step_v2 U st0 line_num raw =
     (let line = rstrip_nl raw;
          st = st0\<lparr>total_lines := total_lines st0 + 1\<rparr>
      in if line_num = 0 \<and> line = ustr ''~''
         then Inr (Marker, st\<lparr>compression_flag := True\<rparr>)
         else definitions_v2 U st line)"

fun loop_v2 :: "unicode_db \<Rightarrow> state_v2 \<Rightarrow> nat \<Rightarrow> ustring list \<Rightarrow> py_error + state_v2" where
  "loop_v2 U st n [] = Inr st"
| "loop_v2 U st n (l # ls) =
     (case step_v2 U st n l of
        Inl e \<Rightarrow> Inl e
      | Inr (kind, st') \<Rightarrow> loop_v2 U st' (Suc n) ls)"

fun kinds_v2 :: "unicode_db \<Rightarrow> state_v2 \<Rightarrow> nat \<Rightarrow> ustring list \<Rightarrow> line_kind list" where
  "kinds_v2 U st n [] = []"
| "kinds_v2 U st n (l # ls) =
     (case step_v2 U st n l of
        Inl e \<Rightarrow> []
      | Inr (kind, st') \<Rightarrow> kind # kinds_v2 U st' (Suc n) ls)"

definition final_v2 :: "unicode_db \<Rightarrow> int \<Rightarrow> ustring \<Rightarrow> py_error + state_v2" where
  "final_v2 U size_b text = loop_v2 U (init_v2 size_b) 0 (readlines text)"

definition analyze_patch_v2 :: "unicode_db \<Rightarrow> file_read \<Rightarrow> py_error + state_v2 option" where
  "analyze_patch_v2 U file =
     (case file of
        None \<Rightarrow> Inr None
      | Some (size_b, text) \<Rightarrow> map_sum id Some (final_v2 U size_b text))"

section \<open>The figures of the report\<close>

definition defined_set :: "'a stats_scheme \<Rightarrow> ustring set" where
  "defined_set st = set (map fst (defined_vars st))"

definition used_set :: "'a stats_scheme \<Rightarrow> ustring set" where
  "used_set st = set (map fst (used_vars_count st))"

definition unused_vars :: "'a stats_scheme \<Rightarrow> ustring set" where
  "unused_vars st = defined_set st - used_set st"

text \<open>
  The dead-weight loop over \<open>unused_vars\<close>. Each of its keys is in \<open>defined_vars\<close>, so
  \<open>defined_vars[var_name]\<close> finds it.
\<close>

definition unused_size_b :: "'a stats_scheme \<Rightarrow> int" where
  "unused_size_b st =
     (\<Sum>var_name \<in> unused_vars st.
        (case map_of (defined_vars st) var_name of
           Some content \<Rightarrow> 1 + 1 + blen content
         | None \<Rightarrow> 0))"

definition total_overhead_v1 :: "state_v1 \<Rightarrow> int" where
  "total_overhead_v1 st =
     block_prefix_overhead_b st + definition_at_overhead_b st +
     command_at_overhead_b st + literal_gap_overhead_b st"

definition total_overhead_v2 :: "state_v2 \<Rightarrow> int" where
  "total_overhead_v2 st =
     block_prefix_overhead_b st + definition_at_overhead_b st +
     total_reference_cost_b st + literal_gap_overhead_b st"

text \<open>
  \<open>total_overhead / total_size_b * 100\<close>, printed only for a positive size. Python
  computes the quotient in floating point; the model keeps the exact value.
\<close>

definition overhead_percent :: "int \<Rightarrow> int \<Rightarrow> real option" where
  "overhead_percent total_overhead size_b =
     (if size_b > 0 then Some (real_of_int total_overhead / real_of_int size_b * 100) else None)"

definition def_cost_full_b :: "state_v2 \<Rightarrow> int" where
  "def_cost_full_b st =
     (\<Sum>(var_name, content) \<leftarrow> defined_vars st.
        if var_name \<in> full_line_vars st then 1 + 1 + blen content else 0)"

definition def_cost_fragment_b :: "state_v2 \<Rightarrow> int" where
  "def_cost_fragment_b st =
     (\<Sum>(var_name, content) \<leftarrow> defined_vars st.
        if var_name \<in> full_line_vars st then 0 else 1 + 1 + blen content)"

definition net_savings_full :: "state_v2 \<Rightarrow> int" where
  "net_savings_full st = full_line_replaced_b st - (def_cost_full_b st + full_line_ref_cost_b st)"

definition net_savings_fragment :: "state_v2 \<Rightarrow> int" where
  "net_savings_fragment st =
     fragment_replaced_b st - (def_cost_fragment_b st + fragment_ref_cost_b st)"

section \<open>The block state\<close>

text \<open>
  The two variables of the block state agree: the count of remaining lines is not
  negative, and the analyzer is inside a block exactly when the count is positive.
\<close>

definition block_inv :: "'a stats_scheme \<Rightarrow> bool" where
  "block_inv st \<longleftrightarrow> 0 \<le> block_lines_remaining st \<and> (in_block st \<longleftrightarrow> 0 < block_lines_remaining st)"

section \<open>The specification's wording\<close>

text \<open>
  The classification of a definition's content as the specification states it: more than
  5 characters, and a leading white space character or a final \<open>}\<close> or \<open>;\<close>.
\<close>

definition is_full_line_spec :: "ustring \<Rightarrow> bool" where
  "is_full_line_spec content \<longleftrightarrow>
     length content > 5 \<and>
     ((case content of [] \<Rightarrow> False | c # r \<Rightarrow> is_space c) \<or>
      (content \<noteq> [] \<and> (last content = 125 \<or> last content = 59)))"

section \<open>Evaluation on concrete files\<close>

text \<open>Scenario A of the specification: three lines, each ended by a newline (21 bytes).\<close>

definition scenario_A :: ustring where
  "scenario_A = ustr ''@x hello'' @ [10] @ ustr ''1 A+ 1'' @ [10] @ ustr ''a @x'' @ [10]"

text \<open>A definition-shaped line after a command, and a bare \<open>@id\<close> before a definition.\<close>

definition late_definition :: ustring where
  "late_definition = ustr ''1 a x'' @ [10] @ ustr ''@x foo'' @ [10]"

definition bare_definition :: ustring where
  "bare_definition = ustr ''@x'' @ [10] @ ustr ''@y foo'' @ [10]"

text \<open>An identifier defined twice, first with a full-line content, then with a fragment.\<close>

definition redefinition :: ustring where
  "redefinition = ustr ''@x return;'' @ [10] @ ustr ''@x hi'' @ [10]"

text \<open>A block header whose count, 4300 zeros and a 1, has one digit too many for \<open>int\<close>.\<close>

definition long_count :: ustring where
  "long_count = replicate 4300 48 @ [49]"

definition long_count_header :: ustring where
  "long_count_header = ustr ''1 A+ '' @ long_count"

definition long_count_file :: ustring where
  "long_count_file = long_count_header @ [10] @ ustr ''a @x'' @ [10]"

text \<open>The number that a string of decimal digits denotes, most significant digit first.\<close>

definition decimal_value :: "unicode_db \<Rightarrow> ustring \<Rightarrow> int" where
  "decimal_value U ds =
     (\<Sum>i<length ds. int (digit_value U (ds ! (length ds - 1 - i))) * 10 ^ i)"

text \<open>A block header with count 0 and one more line.\<close>

definition zero_count_file :: ustring where
  "zero_count_file = ustr ''1 A+ 0'' @ [10] @ ustr ''a @x'' @ [10]"

text \<open>
  The string that the usage analysis of a block-body line scans: the line without its
  two-character prefix, if it has one.
\<close>

definition block_content :: "ustring \<Rightarrow> ustring" where
  "block_content line = (if has_block_prefix line then drop 2 line else line)"

text \<open>
  The reference tokens that the loop body finds on a line, by the branch that the line
  takes: only the block-body and the command branches scan for references.
\<close>

definition line_usages :: "unicode_db \<Rightarrow> line_kind \<Rightarrow> ustring \<Rightarrow> ustring list" where
  "line_usages U kind raw =
     (if kind = BlockBody then var_usage_findall_v2 U (block_content (rstrip_nl raw))
      else if kind = Command then var_usage_findall_v2 U (rstrip_nl raw)
      else [])"

text \<open>The reference occurrences of a run, in the order in which they are scanned.\<close>

definition scanned :: "unicode_db \<Rightarrow> line_kind list \<Rightarrow> ustring list \<Rightarrow> ustring list" where
  "scanned U kinds ls = concat (map (\<lambda>(kind, raw). line_usages U kind raw) (zip kinds ls))"


lemmas eval_defs =
  ustr_def blen_def utf8_len_def is_space_def is_digit_def digit_value_def is_w_def
  is_word_def is_cmd_id_def ascii_db_def at_eol_def dot_star_eol_def def_regex_def
  def_regex_no_content_def block_header_regex_def int_of_digits_def int_max_str_digits_def
  command_regex_def
  is_command_def full_line_heuristic_regex_def var_usage_findall_v1_def
  var_usage_findall_v2_def gap_overhead_def rstrip_nl_def has_block_prefix_def
  count_usage_def init_v1_def scan_v1_def block_body_v1_def dispatch_v1_def step_v1_def
  final_v1_def
  init_v2_def use_ref_v2_def scan_v2_def block_body_v2_def commands_v2_def
  record_definition_def definitions_v2_def step_v2_def final_v2_def defined_set_def used_set_def
  unused_vars_def unused_size_b_def total_overhead_v1_def total_overhead_v2_def
  def_cost_full_b_def def_cost_fragment_b_def net_savings_full_def
  net_savings_fragment_def Let_def upt_rec

section \<open>C1: scenario A\<close>

text \<open>
  C1 (as amended). On the file of scenario A the v2 analyzer runs to the end, records the
  one definition of \<open>@x\<close> with content \<open>hello\<close>, puts it into the fragment bucket, counts 2
  bytes of block-prefix overhead (H1) for the stripped \<open>a \<close>, and 5 replaced bytes. The
  reference \<open>@x\<close> is two bytes long, so the reference cost (H3) is 2, not 3, and the
  fragment net savings are 5 - (7 + 2) = -4, not -5. This holds for every Unicode table
  and every reported file size.
\<close>

theorem scenario_A_v2:
  "\<exists>st. final_v2 U n scenario_A = Inr st \<and>
     defined_vars st = [(ustr ''@x'', ustr ''hello'')] \<and>
     full_line_vars st = {} \<and>
     fragment_vars st = {ustr ''@x''} \<and>
     block_prefix_overhead_b st = 2 \<and>
     total_reference_cost_b st = 2 \<and>
     total_replaced_bytes st = 5 \<and>
     fragment_replaced_b st = 5 \<and>
     def_cost_fragment_b st = 7 \<and>
     fragment_ref_cost_b st = 2 \<and>
     net_savings_fragment st = - 4"
  by (simp add: scenario_A_def eval_defs)

text \<open>
  The figures of the claim as stated, a 3-byte reference cost and net savings of -5, are
  not what the analyzer computes on that file.
\<close>

theorem scenario_A_claim_fails:
  "\<not> isl (final_v2 ascii_db 21 scenario_A) \<and>
   total_reference_cost_b (projr (final_v2 ascii_db 21 scenario_A)) \<noteq> 3 \<and>
   net_savings_fragment (projr (final_v2 ascii_db 21 scenario_A)) \<noteq> - 5"
  by (simp add: scenario_A_def eval_defs)

section \<open>C9: the Base58 decoder\<close>

lemma map_of_zip_enumerate:
  "map_of (zip xs (map int [k..<k + length xs])) c =
     (if c \<in> set xs then Some (int (k + length (takeWhile (\<lambda>x. x \<noteq> c) xs))) else None)"
proof (induction xs arbitrary: k)
  case Nil
  show ?case by simp
next
  case (Cons x xs)
  have "[k..<k + length (x # xs)] = k # [Suc k..<Suc k + length xs]"
    by (subst upt_rec) simp
  then show ?case using Cons.IH [of "Suc k"] by auto
qed

lemma BASE58_MAP_lookup:
  "map_of BASE58_MAP c =
     (if c \<in> set BASE58_ALPHABET then Some (int (b58_index c)) else None)"
  using map_of_zip_enumerate [of BASE58_ALPHABET 0 c]
  by (simp add: BASE58_MAP_def b58_index_def)

lemma BASE_58: "BASE = 58"
  by (simp add: BASE_def BASE58_ALPHABET_def ustr_def)

lemma decode_loop_invalid:
  "\<not> set cs \<subseteq> set BASE58_ALPHABET \<Longrightarrow> decode_loop cs d m = - 1"
  by (induction cs arbitrary: d m) (auto simp: BASE58_MAP_lookup)

lemma decode_loop_valid:
  "set cs \<subseteq> set BASE58_ALPHABET \<Longrightarrow>
   decode_loop cs d m = d + m * (\<Sum>i<length cs. int (b58_index (cs ! i)) * 58 ^ i)"
proof (induction cs arbitrary: d m)
  case Nil
  show ?case by simp
next
  case (Cons c cs)
  then have c: "c \<in> set BASE58_ALPHABET" and cs: "set cs \<subseteq> set BASE58_ALPHABET"
    by simp_all
  have "decode_loop (c # cs) d m =
          decode_loop cs (d + int (b58_index c) * m) (m * 58)"
    using c by (simp add: BASE58_MAP_lookup BASE_58)
  also have "\<dots> = d + int (b58_index c) * m +
      m * 58 * (\<Sum>i<length cs. int (b58_index (cs ! i)) * 58 ^ i)"
    by (rule Cons.IH [OF cs])
  also have "\<dots> = d + m * (\<Sum>i<length (c # cs). int (b58_index ((c # cs) ! i)) * 58 ^ i)"
    by (simp del: sum.lessThan_Suc add: sum.lessThan_Suc_shift sum_distrib_left algebra_simps)
  finally show ?case .
qed

text \<open>
  C9. \<open>decodeBase58\<close> returns the sentinel -1, and raises nothing, when its argument is
  not a string, is the empty string, or holds a character outside the 58-character
  alphabet. On a non-empty string of alphabet characters it returns the sum, from the
  rightmost character leftwards, of the character's index in the alphabet times 58 to the
  power of its position from the right; that number is not negative.
\<close>

theorem decodeBase58_spec:
  "decodeBase58 (PyOther truthy) = - 1 \<and>
   decodeBase58 (PyStr []) = - 1 \<and>
   (\<forall>s. \<not> set s \<subseteq> set BASE58_ALPHABET \<longrightarrow> decodeBase58 (PyStr s) = - 1) \<and>
   (\<forall>s. s \<noteq> [] \<and> set s \<subseteq> set BASE58_ALPHABET \<longrightarrow>
        decodeBase58 (PyStr s) =
          (\<Sum>i<length s. int (b58_index (s ! (length s - 1 - i))) * 58 ^ i) \<and>
        0 \<le> decodeBase58 (PyStr s))"
proof -
  have invalid: "decodeBase58 (PyStr s) = - 1" if "\<not> set s \<subseteq> set BASE58_ALPHABET" for s
  proof -
    from that have "s \<noteq> []" by auto
    moreover from that have "\<not> set (rev s) \<subseteq> set BASE58_ALPHABET" by simp
    ultimately show ?thesis by (simp add: decode_loop_invalid)
  qed
  have valid: "decodeBase58 (PyStr s) =
          (\<Sum>i<length s. int (b58_index (s ! (length s - 1 - i))) * 58 ^ i)"
    if "s \<noteq> []" "set s \<subseteq> set BASE58_ALPHABET" for s
  proof -
    from that have "decodeBase58 (PyStr s) =
        (\<Sum>i<length (rev s). int (b58_index (rev s ! i)) * 58 ^ i)"
      using decode_loop_valid [of "rev s" 0 1] by simp
    also have "\<dots> = (\<Sum>i<length s. int (b58_index (s ! (length s - 1 - i))) * 58 ^ i)"
      by (rule sum.cong) (simp_all add: rev_nth)
    finally show ?thesis .
  qed
  have nonneg: "0 \<le> decodeBase58 (PyStr s)"
    if "s \<noteq> []" "set s \<subseteq> set BASE58_ALPHABET" for s
    unfolding valid [OF that] by (rule sum_nonneg) simp
  show ?thesis using invalid valid nonneg by simp
qed

theorem decodeBase58_spec_witness:
  "decodeBase58 (PyStr (ustr ''2l'')) = - 1 \<and> decodeBase58 (PyStr (ustr ''21'')) = 58 \<and>
   0 \<le> decodeBase58 (PyStr (ustr ''21''))"
proof -
  have bad: "\<not> set (ustr ''2l'') \<subseteq> set BASE58_ALPHABET"
    by (simp add: BASE58_ALPHABET_def ustr_def)
  have good: "ustr ''21'' \<noteq> [] \<and> set (ustr ''21'') \<subseteq> set BASE58_ALPHABET"
    by (simp add: BASE58_ALPHABET_def ustr_def)
  have idx: "b58_index 50 = 1" "b58_index 49 = 0"
    by (simp_all add: b58_index_def BASE58_ALPHABET_def ustr_def)
  have len: "length (ustr ''21'') = 2" "ustr ''21'' ! 0 = 50" "ustr ''21'' ! 1 = 49" "ustr ''21'' ! Suc 0 = 49"
    by (simp_all add: ustr_def)
  from decodeBase58_spec [of True] bad good
  have "decodeBase58 (PyStr (ustr ''2l'')) = - 1"
    and "decodeBase58 (PyStr (ustr ''21'')) =
          (\<Sum>i<length (ustr ''21''). int (b58_index (ustr ''21'' ! (length (ustr ''21'') - 1 - i))) * 58 ^ i)"
    and "0 \<le> decodeBase58 (PyStr (ustr ''21''))"
    by blast+
  then show ?thesis by (simp add: len idx lessThan_Suc numeral_2_eq_2)
qed

section \<open>Lines of a file\<close>

lemma rstrip_nl_snoc: "rstrip_nl (p @ [c]) = (if c = 10 then rstrip_nl p else p @ [c])"
  by (simp add: rstrip_nl_def)

lemma set_rstrip_nl: "set (rstrip_nl l) \<subseteq> set l"
  using set_dropWhileD [of _ "\<lambda>c. c = 10" "rev l"] by (auto simp: rstrip_nl_def)

lemma readlines_butlast: "l \<in> set (readlines t) \<Longrightarrow> 10 \<notin> set (butlast l)"
proof (induction t arbitrary: l)
  case Nil
  then show ?case by simp
next
  case (Cons c cs)
  show ?case
  proof (cases "c = 10")
    case True
    with Cons show ?thesis by auto
  next
    case False
    show ?thesis
    proof (cases "readlines cs")
      case Nil
      with Cons.prems False show ?thesis by simp
    next
      case (Cons l' ls)
      with Cons.prems False have "l = c # l' \<or> l \<in> set ls" by simp
      then show ?thesis
      proof
        assume "l = c # l'"
        moreover have "10 \<notin> set (butlast l')" using Cons.IH [of l'] Cons by simp
        ultimately show ?thesis using False by simp
      next
        assume "l \<in> set ls"
        then show ?thesis using Cons.IH [of l] Cons by simp
      qed
    qed
  qed
qed

lemma rstrip_nl_no_newline: "10 \<notin> set (butlast l) \<Longrightarrow> 10 \<notin> set (rstrip_nl l)"
proof (cases l rule: rev_cases)
  case Nil
  then show ?thesis by (simp add: rstrip_nl_def)
next
  case (snoc p c)
  assume "10 \<notin> set (butlast l)"
  with snoc have "10 \<notin> set p" by simp
  then show ?thesis using snoc set_rstrip_nl [of p] by (auto simp: rstrip_nl_snoc)
qed

lemma line_no_newline: "raw \<in> set (readlines text) \<Longrightarrow> 10 \<notin> set (rstrip_nl raw)"
  by (rule rstrip_nl_no_newline) (rule readlines_butlast)

section \<open>C2: the classification heuristic\<close>

lemma dot_star_eol_no_newline: "10 \<notin> set s \<Longrightarrow> dot_star_eol s"
proof -
  assume "10 \<notin> set s"
  then have "dropWhile (\<lambda>c. c \<noteq> 10) s = []" by (auto simp: dropWhile_eq_Nil_conv)
  then show ?thesis by (simp add: dot_star_eol_def at_eol_def)
qed

lemma at_eol_no_newline: "10 \<notin> set s \<Longrightarrow> at_eol s \<longleftrightarrow> s = []"
  by (auto simp: at_eol_def)

lemma full_line_first_alternative:
  assumes "10 \<notin> set s"
  shows "list_ex (\<lambda>k. dot_star_eol (drop k s)) [1..<Suc (length (takeWhile is_space s))]
         \<longleftrightarrow> (case s of [] \<Rightarrow> False | c # r \<Rightarrow> is_space c)"
proof -
  have "dot_star_eol (drop k s)" for k
    using assms in_set_dropD [of 10 k s] by (intro dot_star_eol_no_newline) blast
  then have "list_ex (\<lambda>k. dot_star_eol (drop k s)) [1..<Suc (length (takeWhile is_space s))]
      \<longleftrightarrow> takeWhile is_space s \<noteq> []"
    by (auto simp: list_ex_iff Suc_le_eq)
  also have "\<dots> \<longleftrightarrow> (case s of [] \<Rightarrow> False | c # r \<Rightarrow> is_space c)"
    by (cases s) simp_all
  finally show ?thesis .
qed

lemma full_line_second_alternative:
  assumes "10 \<notin> set s"
  shows "list_ex (\<lambda>j. j < length s \<and> (s ! j = 125 \<or> s ! j = 59) \<and> at_eol (drop (Suc j) s))
           [0..<Suc (length (takeWhile (\<lambda>c. c \<noteq> 10) s))]
         \<longleftrightarrow> s \<noteq> [] \<and> (last s = 125 \<or> last s = 59)"
proof -
  have tw: "takeWhile (\<lambda>c. c \<noteq> 10) s = s"
    using assms by (auto simp: takeWhile_eq_all_conv)
  have eol: "at_eol (drop (Suc j) s) \<longleftrightarrow> length s \<le> Suc j" for j
    using assms in_set_dropD [of 10 "Suc j" s] by (subst at_eol_no_newline) auto
  show ?thesis
  proof
    assume "list_ex (\<lambda>j. j < length s \<and> (s ! j = 125 \<or> s ! j = 59) \<and> at_eol (drop (Suc j) s))
           [0..<Suc (length (takeWhile (\<lambda>c. c \<noteq> 10) s))]"
    then obtain j where j: "j < length s" "s ! j = 125 \<or> s ! j = 59" "length s \<le> Suc j"
      unfolding tw eol by (auto simp: list_ex_iff)
    then have ne: "s \<noteq> []" and "j = length s - 1" by auto
    then have "last s = s ! j" by (simp add: last_conv_nth)
    with j ne show "s \<noteq> [] \<and> (last s = 125 \<or> last s = 59)" by simp
  next
    assume a: "s \<noteq> [] \<and> (last s = 125 \<or> last s = 59)"
    then have "last s = s ! (length s - 1)" by (simp add: last_conv_nth)
    with a have "length s - 1 < length s" "s ! (length s - 1) = 125 \<or> s ! (length s - 1) = 59"
      by auto
    then show "list_ex (\<lambda>j. j < length s \<and> (s ! j = 125 \<or> s ! j = 59) \<and> at_eol (drop (Suc j) s))
           [0..<Suc (length (takeWhile (\<lambda>c. c \<noteq> 10) s))]"
      unfolding tw eol list_ex_iff by (intro bexI [of _ "length s - 1"]) auto
  qed
qed

lemma heuristic_is_spec:
  assumes "10 \<notin> set content"
  shows "(int (length content) > 5 \<and> full_line_heuristic_regex content) \<longleftrightarrow>
         is_full_line_spec content"
  unfolding full_line_heuristic_regex_def is_full_line_spec_def
    full_line_first_alternative [OF assms] full_line_second_alternative [OF assms]
  by simp

lemma commands_v2_not_definition: "commands_v2 U st line \<noteq> Inr (Definition, st')"
  by (simp add: commands_v2_def split: option.splits prod.splits sum.splits)

lemma def_regex_content_subset:
  "def_regex U line = Some (var_name, content) \<Longrightarrow> set content \<subseteq> set line"
proof -
  assume a: "def_regex U line = Some (var_name, content)"
  then obtain c r where line: "line = c # r" by (cases line) (simp_all add: def_regex_def)
  with a obtain sp where "dropWhile (is_word U) r = sp # content"
    by (auto simp: def_regex_def split: list.splits if_splits)
  then have "set content \<subseteq> set (dropWhile (is_word U) r)" by auto
  also have "\<dots> \<subseteq> set r" using set_dropWhileD by fastforce
  finally show ?thesis using line by auto
qed

lemma record_definition_fields:
  "map_of (defined_vars (record_definition st v c n full)) v = Some c"
  "full \<Longrightarrow> full_line_vars (record_definition st v c n full) = insert v (full_line_vars st)"
  "full \<Longrightarrow> fragment_vars (record_definition st v c n full) = fragment_vars st"
  "\<not> full \<Longrightarrow> fragment_vars (record_definition st v c n full) = insert v (fragment_vars st)"
  "\<not> full \<Longrightarrow> full_line_vars (record_definition st v c n full) = full_line_vars st"
  by (simp_all add: record_definition_def Let_def update_conv')

lemma step_v2_not_marker:
  "step_v2 U st n raw = Inr (k, st') \<Longrightarrow> k \<noteq> Marker \<Longrightarrow>
   definitions_v2 U (st\<lparr>total_lines := total_lines st + 1\<rparr>) (rstrip_nl raw) = Inr (k, st')"
  by (auto simp: step_v2_def Let_def split: if_splits)

text \<open>
  C2. Whenever the v2 analyzer records a definition (from a line of the file), the
  identifier goes into the full-line bucket if and only if the content is longer than 5
  characters and starts with white space or ends with \<open>}\<close> or \<open>;\<close>; otherwise it goes
  into the fragment bucket, and so does a definition with empty content. The recorded
  content is the text after the first white space character, or empty for a bare \<open>@id\<close>.
\<close>

theorem classification_heuristic:
  assumes raw: "raw \<in> set (readlines text)"
      and step: "step_v2 U st n raw = Inr (Definition, st')"
  shows "\<exists>var_name content.
           (def_regex U (rstrip_nl raw) = Some (var_name, content) \<or>
            def_regex U (rstrip_nl raw) = None \<and>
            def_regex_no_content U (rstrip_nl raw) = Some var_name \<and> content = []) \<and>
           map_of (defined_vars st') var_name = Some content \<and>
           (is_full_line_spec content \<longrightarrow>
              full_line_vars st' = insert var_name (full_line_vars st) \<and>
              fragment_vars st' = fragment_vars st) \<and>
           (\<not> is_full_line_spec content \<longrightarrow>
              fragment_vars st' = insert var_name (fragment_vars st) \<and>
              full_line_vars st' = full_line_vars st) \<and>
           (content = [] \<longrightarrow> \<not> is_full_line_spec content)"
proof -
  define line where "line = rstrip_nl raw"
  define st1 where "st1 = st\<lparr>total_lines := total_lines st + 1\<rparr>"
  have no_nl: "10 \<notin> set line"
    unfolding line_def using raw by (rule line_no_newline)
  have vars: "full_line_vars st1 = full_line_vars st" "fragment_vars st1 = fragment_vars st"
    by (simp_all add: st1_def)
  have empty: "\<not> is_full_line_spec []" by (simp add: is_full_line_spec_def)
  have defs: "definitions_v2 U st1 line = Inr (Definition, st')"
    unfolding st1_def line_def using step by (rule step_v2_not_marker) simp
  have pd: "parsing_definitions st1"
  proof (rule ccontr)
    assume "\<not> parsing_definitions st1"
    with defs have "commands_v2 U st1 line = Inr (Definition, st')"
      by (simp add: definitions_v2_def)
    then show False using commands_v2_not_definition [of U st1 line st'] by simp
  qed
  show ?thesis
  proof (cases "def_regex U line")
    case (Some p)
    obtain var_name content where p: "p = (var_name, content)" by (cases p)
    define full where "full = (int (length content) > 5 \<and> full_line_heuristic_regex content)"
    have "set content \<subseteq> set line"
      using Some p by (intro def_regex_content_subset [of U line var_name]) simp
    with no_nl have "10 \<notin> set content" by auto
    then have spec: "full \<longleftrightarrow> is_full_line_spec content"
      unfolding full_def by (rule heuristic_is_spec)
    from defs pd Some p
    have st': "st' = record_definition st1 var_name content (blen line) full"
      by (simp add: definitions_v2_def full_def)
    show ?thesis
      apply (rule exI [of _ var_name], rule exI [of _ content])
      using Some p empty
      by (simp add: st' spec record_definition_fields vars line_def [symmetric])
  next
    case None
    show ?thesis
    proof (cases "def_regex_no_content U line")
      case (Some var_name)
      from defs pd None Some
      have st': "st' = record_definition st1 var_name [] (blen line) False"
        by (simp add: definitions_v2_def)
      show ?thesis
        apply (rule exI [of _ var_name], rule exI [of _ "[]"])
        using None Some empty
        by (simp add: st' record_definition_fields vars line_def [symmetric])
    next
      case nc: None
      from defs pd None nc
      have "commands_v2 U (st1\<lparr>parsing_definitions := False\<rparr>) line = Inr (Definition, st')"
        by (simp add: definitions_v2_def)
      then show ?thesis
        using commands_v2_not_definition [of U "st1\<lparr>parsing_definitions := False\<rparr>" line st']
        by simp
    qed
  qed
qed

theorem classification_heuristic_witness:
  "ustr ''@x hello'' @ [10] \<in> set (readlines scenario_A) \<and>
   \<not> is_full_line_spec (ustr ''hello'') \<and>
   (\<exists>st'. step_v2 ascii_db (init_v2 21) 0 (ustr ''@x hello'' @ [10]) = Inr (Definition, st') \<and>
      fragment_vars st' = {ustr ''@x''} \<and> full_line_vars st' = {})"
proof -
  let ?raw = "ustr ''@x hello'' @ [10]"
  have h1: "?raw \<in> set (readlines scenario_A)"
    by (simp add: scenario_A_def ustr_def)
  have "\<exists>st'. step_v2 ascii_db (init_v2 21) 0 ?raw = Inr (Definition, st')"
    by (simp add: eval_defs)
  then obtain st' where h2: "step_v2 ascii_db (init_v2 21) 0 ?raw = Inr (Definition, st')" ..
  have d: "def_regex ascii_db (rstrip_nl ?raw) = Some (ustr ''@x'', ustr ''hello'')"
    by (simp add: eval_defs)
  have e: "\<not> is_full_line_spec (ustr ''hello'')"
    by (simp add: is_full_line_spec_def ustr_def)
  from classification_heuristic [OF h1 h2] d e
  have "fragment_vars st' = insert (ustr ''@x'') (fragment_vars (init_v2 21)) \<and>
        full_line_vars st' = full_line_vars (init_v2 21)"
    by auto
  then have "fragment_vars st' = {ustr ''@x''} \<and> full_line_vars st' = {}"
    by (simp add: init_v2_def)
  with h1 h2 e show ?thesis by blast
qed

section \<open>Fields that the scans leave alone\<close>

lemma foldl_keeps: "(\<And>s x. f (g s x) = f s) \<Longrightarrow> f (foldl g st xs) = f st"
  by (induction xs arbitrary: st) simp_all

lemma use_ref_v2_keeps:
  "parsing_definitions (use_ref_v2 st x) = parsing_definitions st"
  "defined_vars (use_ref_v2 st x) = defined_vars st"
  "full_line_vars (use_ref_v2 st x) = full_line_vars st"
  "fragment_vars (use_ref_v2 st x) = fragment_vars st"
  "in_block (use_ref_v2 st x) = in_block st"
  "block_lines_remaining (use_ref_v2 st x) = block_lines_remaining st"
  "definition_size_b (use_ref_v2 st x) = definition_size_b st"
  "definition_at_overhead_b (use_ref_v2 st x) = definition_at_overhead_b st"
  "block_prefix_overhead_b (use_ref_v2 st x) = block_prefix_overhead_b st"
  "literal_gap_overhead_b (use_ref_v2 st x) = literal_gap_overhead_b st"
  "command_size_b (use_ref_v2 st x) = command_size_b st"
  "other_size_b (use_ref_v2 st x) = other_size_b st"
  by (simp_all add: use_ref_v2_def Let_def split: option.splits)

lemma scan_v2_keeps:
  "parsing_definitions (scan_v2 U st c) = parsing_definitions st"
  "defined_vars (scan_v2 U st c) = defined_vars st"
  "full_line_vars (scan_v2 U st c) = full_line_vars st"
  "fragment_vars (scan_v2 U st c) = fragment_vars st"
  "in_block (scan_v2 U st c) = in_block st"
  "block_lines_remaining (scan_v2 U st c) = block_lines_remaining st"
  "definition_size_b (scan_v2 U st c) = definition_size_b st"
  "definition_at_overhead_b (scan_v2 U st c) = definition_at_overhead_b st"
  "block_prefix_overhead_b (scan_v2 U st c) = block_prefix_overhead_b st"
  "command_size_b (scan_v2 U st c) = command_size_b st"
  "other_size_b (scan_v2 U st c) = other_size_b st"
  by (simp_all add: scan_v2_def Let_def foldl_keeps use_ref_v2_keeps)

lemma block_body_v2_keeps:
  "parsing_definitions (block_body_v2 U st l) = parsing_definitions st"
  "defined_vars (block_body_v2 U st l) = defined_vars st"
  "full_line_vars (block_body_v2 U st l) = full_line_vars st"
  "fragment_vars (block_body_v2 U st l) = fragment_vars st"
  "definition_size_b (block_body_v2 U st l) = definition_size_b st"
  "definition_at_overhead_b (block_body_v2 U st l) = definition_at_overhead_b st"
  "other_size_b (block_body_v2 U st l) = other_size_b st"
  by (simp_all add: block_body_v2_def Let_def scan_v2_keeps)

lemma scan_v1_keeps:
  "defined_vars (scan_v1 U st c) = defined_vars st"
  "in_block (scan_v1 U st c) = in_block st"
  "block_lines_remaining (scan_v1 U st c) = block_lines_remaining st"
  "definition_size_b (scan_v1 U st c) = definition_size_b st"
  "definition_at_overhead_b (scan_v1 U st c) = definition_at_overhead_b st"
  "block_prefix_overhead_b (scan_v1 U st c) = block_prefix_overhead_b st"
  "command_size_b (scan_v1 U st c) = command_size_b st"
  "other_size_b (scan_v1 U st c) = other_size_b st"
  by (simp_all add: scan_v1_def Let_def)

lemma block_body_v1_keeps:
  "defined_vars (block_body_v1 U st l) = defined_vars st"
  "definition_size_b (block_body_v1 U st l) = definition_size_b st"
  "definition_at_overhead_b (block_body_v1 U st l) = definition_at_overhead_b st"
  "other_size_b (block_body_v1 U st l) = other_size_b st"
  by (simp_all add: block_body_v1_def Let_def scan_v1_keeps)

lemma block_body_v1_block:
  "block_lines_remaining (block_body_v1 U st l) = block_lines_remaining st - 1"
  "in_block (block_body_v1 U st l) \<longleftrightarrow> in_block st \<and> block_lines_remaining st - 1 \<noteq> 0"
  by (simp_all add: block_body_v1_def Let_def scan_v1_keeps)

lemma block_body_v2_block:
  "block_lines_remaining (block_body_v2 U st l) = block_lines_remaining st - 1"
  "in_block (block_body_v2 U st l) \<longleftrightarrow> in_block st \<and> block_lines_remaining st - 1 \<noteq> 0"
  by (simp_all add: block_body_v2_def Let_def scan_v2_keeps)

section \<open>The branches of the loop body\<close>

text \<open>
  A step that does not raise took exactly one branch. The two rules list the branches
  of each analyzer with what the branch knows and the state it leaves.
\<close>

lemma step_v1_elim [consumes 1, case_names Marker Body Def Header Command Other]:
  assumes "step_v1 U st n raw = Inr (k, st')"
  obtains
    (Marker) "n = 0" "rstrip_nl raw = ustr ''~''" "k = Marker"
      "st' = st\<lparr>total_lines := total_lines st + 1, compression_flag := True\<rparr>"
  | (Body) "in_block st" "k = BlockBody"
      "st' = block_body_v1 U (st\<lparr>total_lines := total_lines st + 1\<rparr>) (rstrip_nl raw)"
  | (Def) v c where "\<not> in_block st" "def_regex U (rstrip_nl raw) = Some (v, c)"
      "k = Definition"
      "st' = st\<lparr>total_lines := total_lines st + 1,
                 defined_vars := AList.update v c (defined_vars st),
                 definition_lines := definition_lines st + 1,
                 definition_size_b := definition_size_b st + blen (rstrip_nl raw),
                 definition_at_overhead_b := definition_at_overhead_b st + 1\<rparr>"
  | (Header) ident tag digits count where "\<not> in_block st"
      "def_regex U (rstrip_nl raw) = None"
      "block_header_regex U (rstrip_nl raw) = Some (ident, tag, digits)"
      "int_of_digits U digits = Inr count" "k = BlockHeader"
      "st' = st\<lparr>total_lines := total_lines st + 1,
                 command_lines := command_lines st + 1,
                 command_size_b := command_size_b st + blen (rstrip_nl raw),
                 block_lines_remaining := count, in_block := count > 0\<rparr>"
  | (Command) "\<not> in_block st" "def_regex U (rstrip_nl raw) = None"
      "block_header_regex U (rstrip_nl raw) = None" "is_command U (rstrip_nl raw)"
      "k = Command"
      "st' = scan_v1 U
               (st\<lparr>total_lines := total_lines st + 1,
                   command_lines := command_lines st + 1,
                   command_size_b := command_size_b st + blen (rstrip_nl raw)\<rparr>)
               (rstrip_nl raw)"
  | (Other) "\<not> in_block st" "def_regex U (rstrip_nl raw) = None"
      "block_header_regex U (rstrip_nl raw) = None" "\<not> is_command U (rstrip_nl raw)"
      "k = Other"
      "st' = st\<lparr>total_lines := total_lines st + 1,
                 other_lines := other_lines st + 1,
                 other_size_b := other_size_b st + blen (rstrip_nl raw)\<rparr>"
  using assms
  by (auto simp: step_v1_def Let_def dispatch_v1_def
      split: if_splits option.splits prod.splits sum.splits)

lemma commands_v2_elim [consumes 1, case_names Body Header Command Other]:
  assumes "commands_v2 U st line = Inr (k, st')"
  obtains
    (Body) "in_block st" "k = BlockBody" "st' = block_body_v2 U st line"
  | (Header) ident tag digits count where "\<not> in_block st"
      "block_header_regex U line = Some (ident, tag, digits)"
      "int_of_digits U digits = Inr count" "k = BlockHeader"
      "st' = st\<lparr>command_lines := command_lines st + 1,
                 command_size_b := command_size_b st + blen line,
                 block_lines_remaining := count, in_block := count > 0\<rparr>"
  | (Command) "\<not> in_block st" "block_header_regex U line = None" "is_command U line"
      "k = Command"
      "st' = scan_v2 U
               (st\<lparr>command_lines := command_lines st + 1,
                   command_size_b := command_size_b st + blen line\<rparr>)
               line"
  | (Other) "\<not> in_block st" "block_header_regex U line = None" "\<not> is_command U line"
      "k = Other"
      "st' = st\<lparr>other_lines := other_lines st + 1,
                 other_size_b := other_size_b st + blen line\<rparr>"
  using assms
  by (auto simp: commands_v2_def split: if_splits option.splits prod.splits sum.splits)

text \<open>
  In v2 a line reaches the commands either after the definitions phase or as the line
  that ends it; in both cases the flag is off when the commands see the state.
\<close>

lemma step_v2_elim [consumes 1, case_names Marker Def Bare Commands]:
  assumes "step_v2 U st n raw = Inr (k, st')"
  obtains
    (Marker) "n = 0" "rstrip_nl raw = ustr ''~''" "k = Marker"
      "st' = st\<lparr>total_lines := total_lines st + 1, compression_flag := True\<rparr>"
  | (Def) v c where "parsing_definitions st" "def_regex U (rstrip_nl raw) = Some (v, c)"
      "k = Definition"
      "st' = record_definition (st\<lparr>total_lines := total_lines st + 1\<rparr>) v c
               (blen (rstrip_nl raw))
               (int (length c) > 5 \<and> full_line_heuristic_regex c)"
  | (Bare) v where "parsing_definitions st" "def_regex U (rstrip_nl raw) = None"
      "def_regex_no_content U (rstrip_nl raw) = Some v" "k = Definition"
      "st' = record_definition (st\<lparr>total_lines := total_lines st + 1\<rparr>) v []
               (blen (rstrip_nl raw)) False"
  | (Commands)
      "parsing_definitions st \<longrightarrow>
         def_regex U (rstrip_nl raw) = None \<and> def_regex_no_content U (rstrip_nl raw) = None"
      "commands_v2 U
         (st\<lparr>total_lines := total_lines st + 1, parsing_definitions := False\<rparr>)
         (rstrip_nl raw) = Inr (k, st')"
proof -
  let ?st = "st\<lparr>total_lines := total_lines st + 1\<rparr>"
  show ?thesis
  proof (cases "n = 0 \<and> rstrip_nl raw = ustr ''~''")
    case True
    with assms show ?thesis by (intro Marker) (simp_all add: step_v2_def Let_def)
  next
    case False
    with assms have d: "definitions_v2 U ?st (rstrip_nl raw) = Inr (k, st')"
      by (simp add: step_v2_def Let_def)
    show ?thesis
    proof (cases "parsing_definitions st")
      case pd: True
      show ?thesis
      proof (cases "def_regex U (rstrip_nl raw)")
        case (Some p)
        obtain v c where "p = (v, c)" by (cases p)
        with d pd Some show ?thesis by (intro Def [of v c]) (simp_all add: definitions_v2_def)
      next
        case None
        show ?thesis
        proof (cases "def_regex_no_content U (rstrip_nl raw)")
          case (Some v)
          with d pd None show ?thesis by (intro Bare [of v]) (simp_all add: definitions_v2_def)
        next
          case nc: None
          with d pd None show ?thesis by (intro Commands) (simp_all add: definitions_v2_def)
        qed
      qed
    next
      case False
      with d have c: "commands_v2 U ?st (rstrip_nl raw) = Inr (k, st')"
        by (simp add: definitions_v2_def)
      have eq: "?st\<lparr>parsing_definitions := False\<rparr> = ?st"
        using False by simp
      from c have "commands_v2 U (?st\<lparr>parsing_definitions := False\<rparr>) (rstrip_nl raw) =
          Inr (k, st')"
        by (simp only: eq)
      with False show ?thesis by (intro Commands) simp_all
    qed
  qed
qed


lemma block_header_regex_digits:
  assumes "block_header_regex U line = Some (ident, tag, digits)"
  shows "digits \<noteq> []" and "length digits \<le> length line"
proof -
  from assms obtain t p r2 where
    r: "dropWhile is_space (dropWhile (is_word U) line) = t # p # r2"
    and d: "digits = takeWhile (is_digit U) (dropWhile is_space r2)"
    and ne: "takeWhile (is_digit U) (dropWhile is_space r2) \<noteq> []"
    by (auto simp: block_header_regex_def Let_def split: list.splits if_splits)
  show "digits \<noteq> []" using d ne by simp
  have "length digits \<le> length (dropWhile is_space r2)"
    unfolding d by (rule length_takeWhile_le)
  also have "\<dots> \<le> length r2" by (rule length_dropWhile_le)
  also have "\<dots> \<le> length (t # p # r2)" by simp
  also have "\<dots> \<le> length (dropWhile (is_word U) line)"
    unfolding r [symmetric] by (rule length_dropWhile_le)
  also have "\<dots> \<le> length line" by (rule length_dropWhile_le)
  finally show "length digits \<le> length line" .
qed







text \<open>Induction along a run that reaches the end.\<close>

lemma loop_v1_invariant:
  assumes "loop_v1 U st n ls = Inr st'" "P st"
    and "\<And>s m raw k s'. P s \<Longrightarrow> step_v1 U s m raw = Inr (k, s') \<Longrightarrow> P s'"
  shows "P st'"
  using assms(1,2)
proof (induction ls arbitrary: st n)
  case Nil
  then show ?case by simp
next
  case (Cons l ls)
  from Cons.prems(1) obtain k s where s: "step_v1 U st n l = Inr (k, s)"
    and l: "loop_v1 U s (Suc n) ls = Inr st'"
    by (auto split: sum.splits)
  from assms(3) [OF Cons.prems(2) s] have "P s" .
  with l show ?case by (rule Cons.IH)
qed

lemma loop_v2_invariant:
  assumes "loop_v2 U st n ls = Inr st'" "P st"
    and "\<And>s m raw k s'. P s \<Longrightarrow> step_v2 U s m raw = Inr (k, s') \<Longrightarrow> P s'"
  shows "P st'"
  using assms(1,2)
proof (induction ls arbitrary: st n)
  case Nil
  then show ?case by simp
next
  case (Cons l ls)
  from Cons.prems(1) obtain k s where s: "step_v2 U st n l = Inr (k, s)"
    and l: "loop_v2 U s (Suc n) ls = Inr st'"
    by (auto split: sum.splits)
  from assms(3) [OF Cons.prems(2) s] have "P s" .
  with l show ?case by (rule Cons.IH)
qed

section \<open>C3: definitions before commands\<close>

lemma commands_v2_keeps:
  assumes "commands_v2 U st l = Inr (k, st')"
  shows "parsing_definitions st' = parsing_definitions st"
    and "defined_vars st' = defined_vars st"
    and "full_line_vars st' = full_line_vars st"
    and "fragment_vars st' = fragment_vars st"
    and "definition_size_b st' = definition_size_b st"
    and "definition_at_overhead_b st' = definition_at_overhead_b st"
    and "k \<noteq> Marker" and "k \<noteq> Definition"
  using assms
  by (cases rule: commands_v2_elim; simp add: block_body_v2_keeps scan_v2_keeps)+

text \<open>Outside the definitions phase a step records no definition and stays outside.\<close>

lemma step_v2_after_definitions:
  assumes "\<not> parsing_definitions st" "step_v2 U st n raw = Inr (k, st')"
  shows "k \<noteq> Definition" and "\<not> parsing_definitions st'"
    and "defined_vars st' = defined_vars st"
  using assms(2,1)
  by (cases rule: step_v2_elim; auto dest: commands_v2_keeps)+

text \<open>A line that is neither the marker nor a definition ends the definitions phase.\<close>

lemma step_v2_ends_definitions:
  assumes "step_v2 U st n raw = Inr (k, st')" "k \<noteq> Marker" "k \<noteq> Definition"
  shows "\<not> parsing_definitions st'"
  using assms
  by (cases rule: step_v2_elim) (auto dest: commands_v2_keeps(1))

lemma kinds_v2_after_definitions:
  "\<not> parsing_definitions st \<Longrightarrow> Definition \<notin> set (kinds_v2 U st n ls)"
proof (induction ls arbitrary: st n)
  case Nil
  show ?case by simp
next
  case (Cons l ls)
  show ?case
  proof (cases "step_v2 U st n l")
    case (Inl e)
    then show ?thesis by simp
  next
    case (Inr p)
    obtain k st' where p: "p = (k, st')" by (cases p)
    from step_v2_after_definitions [OF Cons.prems Inr [unfolded p]] Cons.IH [of st' "Suc n"]
    show ?thesis using Inr p by auto
  qed
qed

lemma length_kinds_v2: "length (kinds_v2 U st n ls) \<le> length ls"
  by (induction ls arbitrary: st n) (auto split: sum.splits)

lemma length_kinds_v1: "length (kinds_v1 U st n ls) \<le> length ls"
  by (induction ls arbitrary: st n) (auto split: sum.splits)

lemma length_kinds_v2_complete:
  "loop_v2 U st n ls = Inr st' \<Longrightarrow> length (kinds_v2 U st n ls) = length ls"
  by (induction ls arbitrary: st n) (auto split: sum.splits)

lemma length_kinds_v1_complete:
  "loop_v1 U st n ls = Inr st' \<Longrightarrow> length (kinds_v1 U st n ls) = length ls"
  by (induction ls arbitrary: st n) (auto split: sum.splits)

lemma kinds_v2_definitions_first:
  assumes "i < j" "j < length (kinds_v2 U st n ls)"
    and "kinds_v2 U st n ls ! i \<noteq> Marker" "kinds_v2 U st n ls ! i \<noteq> Definition"
  shows "kinds_v2 U st n ls ! j \<noteq> Definition"
  using assms
proof (induction ls arbitrary: st n i j)
  case Nil
  then show ?case by simp
next
  case (Cons l ls)
  from Cons.prems(1) obtain j' where j: "j = Suc j'" by (cases j) simp_all
  from Cons.prems(2) obtain k st' where s: "step_v2 U st n l = Inr (k, st')"
    by (cases "step_v2 U st n l") auto
  then have ks: "kinds_v2 U st n (l # ls) = k # kinds_v2 U st' (Suc n) ls" by simp
  show ?case
  proof (cases i)
    case 0
    with Cons.prems ks have "k \<noteq> Marker" "k \<noteq> Definition" by simp_all
    with s have "\<not> parsing_definitions st'" by (rule step_v2_ends_definitions)
    then have "Definition \<notin> set (kinds_v2 U st' (Suc n) ls)"
      by (rule kinds_v2_after_definitions)
    moreover have "kinds_v2 U st' (Suc n) ls ! j' \<in> set (kinds_v2 U st' (Suc n) ls)"
      using Cons.prems(2) j ks by (intro nth_mem) simp
    ultimately show ?thesis using j ks by auto
  next
    case (Suc i')
    with Cons.prems j ks show ?thesis
      using Cons.IH [of i' j' st' "Suc n"] by simp
  qed
qed

lemma step_v1_definition:
  assumes "\<not> in_block st" "\<not> (k = 0 \<and> rstrip_nl raw = ustr ''~'')"
    and "def_regex U (rstrip_nl raw) = Some (var_name, content)"
  shows "\<exists>st'. step_v1 U st k raw = Inr (Definition, st') \<and>
           map_of (defined_vars st') var_name = Some content"
  using assms by (auto simp: step_v1_def Let_def dispatch_v1_def update_conv')

text \<open>
  C3 (as amended). In the v2 analyzer, once a line other than the leading marker has not
  been recorded as a definition (it is neither \<open>@id\<close>, white space and content, nor a bare
  \<open>@id\<close>), no later line is recorded as a definition, whatever its shape; every line that
  the analyzer processes has its place in the list of branches, which covers the whole
  file when the analysis runs to the end. The v1 analyzer has no such phase: outside a
  block it records a definition on every line of the shape \<open>@id\<close>, white space, content,
  wherever the line stands.
\<close>

theorem definitions_phase:
  "(\<forall>i j. i < j \<and> j < length (kinds_v2 U (init_v2 n) 0 (readlines text)) \<and>
          kinds_v2 U (init_v2 n) 0 (readlines text) ! i \<noteq> Marker \<and>
          kinds_v2 U (init_v2 n) 0 (readlines text) ! i \<noteq> Definition \<longrightarrow>
          kinds_v2 U (init_v2 n) 0 (readlines text) ! j \<noteq> Definition) \<and>
   (\<forall>st. final_v2 U n text = Inr st \<longrightarrow>
          length (kinds_v2 U (init_v2 n) 0 (readlines text)) = length (readlines text)) \<and>
   (\<forall>st k raw var_name content.
      \<not> in_block st \<and> \<not> (k = 0 \<and> rstrip_nl raw = ustr ''~'') \<and>
      def_regex U (rstrip_nl raw) = Some (var_name, content) \<longrightarrow>
      (\<exists>st'. step_v1 U st k raw = Inr (Definition, st') \<and>
         map_of (defined_vars st') var_name = Some content))"
proof (intro conjI allI impI)
  fix i j
  assume "i < j \<and> j < length (kinds_v2 U (init_v2 n) 0 (readlines text)) \<and>
          kinds_v2 U (init_v2 n) 0 (readlines text) ! i \<noteq> Marker \<and>
          kinds_v2 U (init_v2 n) 0 (readlines text) ! i \<noteq> Definition"
  then show "kinds_v2 U (init_v2 n) 0 (readlines text) ! j \<noteq> Definition"
    using kinds_v2_definitions_first [of i j U "init_v2 n" 0 "readlines text"] by blast
next
  fix st
  assume "final_v2 U n text = Inr st"
  then show "length (kinds_v2 U (init_v2 n) 0 (readlines text)) = length (readlines text)"
    unfolding final_v2_def by (rule length_kinds_v2_complete)
next
  fix st :: state_v1 and k :: nat and raw var_name content :: ustring
  assume "\<not> in_block st \<and> \<not> (k = 0 \<and> rstrip_nl raw = ustr ''~'') \<and>
      def_regex U (rstrip_nl raw) = Some (var_name, content)"
  then show "\<exists>st'. step_v1 U st k raw = Inr (Definition, st') \<and>
         map_of (defined_vars st') var_name = Some content"
    using step_v1_definition [of st k raw U var_name content] by blast
qed

theorem definitions_phase_witness:
  "kinds_v2 ascii_db (init_v2 13) 0 (readlines late_definition) ! 0 = Command \<and>
   length (kinds_v2 ascii_db (init_v2 13) 0 (readlines late_definition)) = 2 \<and>
   kinds_v2 ascii_db (init_v2 13) 0 (readlines late_definition) ! 1 \<noteq> Definition \<and>
   (\<exists>st'. step_v1 ascii_db (init_v1 13) 1 (ustr ''@x foo'' @ [10]) = Inr (Definition, st') \<and>
      map_of (defined_vars st') (ustr ''@x'') = Some (ustr ''foo''))"
proof -
  let ?ks = "kinds_v2 ascii_db (init_v2 13) 0 (readlines late_definition)"
  have rl: "length (readlines late_definition) = 2"
    by (simp add: late_definition_def ustr_def)
  have k0: "?ks ! 0 = Command"
    by (simp add: late_definition_def eval_defs)
  have d: "def_regex ascii_db (rstrip_nl (ustr ''@x foo'' @ [10])) = Some (ustr ''@x'', ustr ''foo'')"
    by (simp add: eval_defs)
  have b: "\<not> in_block (init_v1 13)" by (simp add: init_v1_def)
  have f: "\<exists>st. final_v2 ascii_db 13 late_definition = Inr st"
    by (simp add: late_definition_def eval_defs)
  note t = definitions_phase [of ascii_db 13 late_definition]
  from t f have len: "length ?ks = 2" unfolding rl [symmetric] by blast
  from t have "0 < (1::nat) \<and> 1 < length ?ks \<and>
      ?ks ! 0 \<noteq> Marker \<and> ?ks ! 0 \<noteq> Definition \<longrightarrow> ?ks ! 1 \<noteq> Definition"
    by blast
  then have k1: "?ks ! 1 \<noteq> Definition" using len k0 by simp
  have m: "\<not> ((1::nat) = 0 \<and> rstrip_nl (ustr ''@x foo'' @ [10]) = ustr ''~'')" by simp
  from t b d m have "\<exists>st'. step_v1 ascii_db (init_v1 13) 1 (ustr ''@x foo'' @ [10]) =
      Inr (Definition, st') \<and> map_of (defined_vars st') (ustr ''@x'') = Some (ustr ''foo'')"
    by blast
  with k0 k1 len show ?thesis by simp
qed

text \<open>
  The claim as stated fails for v1, which records the definition in the second line of
  \<open>late_definition\<close>, after a command line; and in v2 the bare \<open>@x\<close>, which is not of the
  shape with white space and content, does not end the definitions.
\<close>

theorem definitions_phase_counterexample:
  "kinds_v1 ascii_db (init_v1 13) 0 (readlines late_definition) = [Command, Definition] \<and>
   \<not> isl (final_v1 ascii_db 13 late_definition) \<and>
   defined_vars (projr (final_v1 ascii_db 13 late_definition)) = [(ustr ''@x'', ustr ''foo'')] \<and>
   def_regex ascii_db (ustr ''@x'') = None \<and>
   kinds_v2 ascii_db (init_v2 10) 0 (readlines bare_definition) = [Definition, Definition]"
  by (simp add: late_definition_def bare_definition_def eval_defs)

section \<open>C4: redefinition\<close>

text \<open>
  C4. When an identifier is defined a second time the last content wins in
  \<open>defined_vars\<close> and nothing is raised, but the v2 analyzer only ever adds to its two
  buckets: on the file \<open>redefinition\<close> the identifier \<open>@x\<close> ends up in the full-line
  bucket and in the fragment bucket, and is accounted as a full line although its last
  content is the fragment \<open>hi\<close>.
\<close>

theorem redefinition_in_both_buckets:
  "\<not> isl (final_v2 ascii_db 17 redefinition) \<and>
   defined_vars (projr (final_v2 ascii_db 17 redefinition)) = [(ustr ''@x'', ustr ''hi'')] \<and>
   ustr ''@x'' \<in> full_line_vars (projr (final_v2 ascii_db 17 redefinition)) \<and>
   ustr ''@x'' \<in> fragment_vars (projr (final_v2 ascii_db 17 redefinition)) \<and>
   def_cost_full_b (projr (final_v2 ascii_db 17 redefinition)) = 4 \<and>
   def_cost_fragment_b (projr (final_v2 ascii_db 17 redefinition)) = 0"
  by (simp add: redefinition_def eval_defs)

section \<open>C5: a block header with a long count\<close>

lemma readlines_line:
  "10 \<notin> set xs \<Longrightarrow> readlines (xs @ 10 # rest) = (xs @ [10]) # readlines rest"
  by (induction xs) auto

lemma ascii_digits_run:
  assumes "\<forall>c \<in> set ds. 48 \<le> c \<and> c \<le> 57"
  shows "takeWhile (is_digit U) ds = ds" and "dropWhile (is_digit U) ds = []"
    and "10 \<notin> set ds"
  using assms
  by (auto simp: is_digit_def takeWhile_eq_all_conv dropWhile_eq_Nil_conv)

lemma decimal_header_regex:
  assumes "ds \<noteq> []" "\<forall>c \<in> set ds. 48 \<le> c \<and> c \<le> 57"
  shows "block_header_regex U (ustr ''1 A+ '' @ ds) = Some ([49], [65, 43], ds)"
proof -
  from assms(1) obtain d ds' where ds: "ds = d # ds'" by (cases ds) auto
  with assms(2) have d: "48 \<le> d" "d \<le> 57" by simp_all
  have cls: "is_word U 49" "\<not> is_word U 32" "is_space 32" "\<not> is_space 65"
    "\<not> is_space 43" "\<not> is_space d" "is_digit U d"
    using d by (simp_all add: is_word_def is_w_def is_digit_def is_space_def)
  have run: "Ball (set ds') (is_digit U)"
    using assms(2) ds by (auto simp: is_digit_def)
  have "block_header_regex U (49 # 32 # 65 # 43 # 32 # d # ds') = Some ([49], [65, 43], d # ds')"
    using run by (simp add: block_header_regex_def Let_def cls at_eol_def)
  then show ?thesis by (simp add: ds ustr_def)
qed

lemma rstrip_nl_line: "xs \<noteq> [] \<Longrightarrow> last xs \<noteq> 10 \<Longrightarrow> rstrip_nl (xs @ [10]) = xs"
proof -
  assume a: "xs \<noteq> []" "last xs \<noteq> 10"
  then have "rstrip_nl (butlast xs @ [last xs]) = butlast xs @ [last xs]"
    by (simp only: rstrip_nl_snoc if_False)
  with a show ?thesis by (simp add: rstrip_nl_snoc)
qed

lemma def_regex_not_at:
  "c \<noteq> 64 \<Longrightarrow> def_regex U (c # r) = None"
  "c \<noteq> 64 \<Longrightarrow> def_regex_no_content U (c # r) = None"
  by (simp_all add: def_regex_def def_regex_no_content_def split: list.splits)

lemma long_count_digits:
  "\<forall>c \<in> set long_count. 48 \<le> c \<and> c \<le> 57" "long_count \<noteq> []"
  "length long_count = 4301"
  by (auto simp: long_count_def)

lemma long_count_header_regex:
  "block_header_regex U long_count_header = Some ([49], [65, 43], long_count)"
  unfolding long_count_header_def
  by (rule decimal_header_regex) (rule long_count_digits)+

lemma long_count_header_no_definition:
  "def_regex U long_count_header = None"
  "def_regex_no_content U long_count_header = None"
  "long_count_header \<noteq> ustr ''~''"
  by (simp_all add: long_count_header_def ustr_def def_regex_not_at)

lemma long_count_raises: "int_of_digits U long_count = Inl ValueError"
  by (simp add: int_of_digits_def int_max_str_digits_def long_count_digits)

lemma rstrip_long_count_header: "rstrip_nl (long_count_header @ [10]) = long_count_header"
  by (rule rstrip_nl_line) (simp_all add: long_count_header_def long_count_def)

lemma long_count_step_v1:
  "\<not> in_block st \<Longrightarrow> step_v1 U st n (long_count_header @ [10]) = Inl ValueError"
  by (simp add: step_v1_def Let_def dispatch_v1_def rstrip_long_count_header
      long_count_header_no_definition long_count_header_regex long_count_raises)

lemma long_count_step_v2:
  "\<not> in_block st \<Longrightarrow> step_v2 U st n (long_count_header @ [10]) = Inl ValueError"
  by (simp add: step_v2_def Let_def definitions_v2_def commands_v2_def
      rstrip_long_count_header long_count_header_no_definition long_count_header_regex
      long_count_raises)

lemma readlines_long_count_file:
  "readlines long_count_file = [long_count_header @ [10], ustr ''a @x'' @ [10]]"
proof -
  have "10 \<notin> set long_count_header"
    using ascii_digits_run(3) [OF long_count_digits(1)]
    by (simp add: long_count_header_def ustr_def)
  then have "readlines long_count_file =
      (long_count_header @ [10]) # readlines (ustr ''a @x'' @ [10])"
    unfolding long_count_file_def by (simp add: readlines_line)
  then show ?thesis by (simp add: ustr_def)
qed

text \<open>
  C5. The file \<open>long_count_file\<close> has the two lines \<open>1 A+ 00...01\<close> (4300 zeros before
  the 1) and \<open>a @x\<close>. Its first line is a block header that declares the count 1, but the
  count has 4301 digits: \<open>int\<close> raises \<open>ValueError\<close>, nothing catches it, and both
  analyzers end there. No line is classified and no report is made, where the claim has
  the next line taken as a block-body line.
\<close>

theorem long_count_aborts:
  "block_header_regex ascii_db long_count_header = Some (ustr ''1'', ustr ''A+'', long_count) \<and>
   final_v1 ascii_db 4312 long_count_file = Inl ValueError \<and>
   kinds_v1 ascii_db (init_v1 4312) 0 (readlines long_count_file) = [] \<and>
   final_v2 ascii_db 4312 long_count_file = Inl ValueError \<and>
   kinds_v2 ascii_db (init_v2 4312) 0 (readlines long_count_file) = []"
proof -
  have b1: "\<not> in_block (init_v1 4312)" by (simp add: init_v1_def)
  have b2: "\<not> in_block (init_v2 4312)" by (simp add: init_v2_def)
  show ?thesis
    by (simp add: final_v1_def final_v2_def readlines_long_count_file
        long_count_step_v1 [OF b1] long_count_step_v2 [OF b2] long_count_header_regex ustr_def)
qed

section \<open>Block regions\<close>

text \<open>The count that \<open>int\<close> returns is the decimal value of the digits.\<close>

lemma decimal_value_Cons:
  "decimal_value U (c # cs) = int (digit_value U c) * 10 ^ length cs + decimal_value U cs"
proof -
  have "(\<Sum>i<length cs. int (digit_value U ((c # cs) ! (length cs - i))) * 10 ^ i) =
        (\<Sum>i<length cs. int (digit_value U (cs ! (length cs - 1 - i))) * 10 ^ i)"
    by (rule sum.cong) (auto simp: nth_Cons')
  then show ?thesis by (simp add: decimal_value_def)
qed

lemma foldl_decimal:
  "foldl (\<lambda>acc c. acc * 10 + int (digit_value U c)) a ds =
     a * 10 ^ length ds + decimal_value U ds"
proof (induction ds arbitrary: a)
  case Nil
  show ?case by (simp add: decimal_value_def)
next
  case (Cons c cs)
  have "foldl (\<lambda>acc c. acc * 10 + int (digit_value U c)) a (c # cs) =
        foldl (\<lambda>acc c. acc * 10 + int (digit_value U c)) (a * 10 + int (digit_value U c)) cs"
    by simp
  also have "\<dots> = (a * 10 + int (digit_value U c)) * 10 ^ length cs + decimal_value U cs"
    by (rule Cons.IH)
  also have "\<dots> = a * 10 ^ length (c # cs) + decimal_value U (c # cs)"
    by (simp add: decimal_value_Cons algebra_simps)
  finally show ?case .
qed

lemma decimal_value_nonneg: "0 \<le> decimal_value U ds"
  unfolding decimal_value_def by (rule sum_nonneg) simp

lemma int_of_digits_value:
  "int_of_digits U ds = Inr count \<longleftrightarrow>
     ds \<noteq> [] \<and> length ds \<le> int_max_str_digits \<and> count = decimal_value U ds"
  by (auto simp: int_of_digits_def foldl_decimal)

text \<open>A line of the header shape is neither a definition nor the marker.\<close>

lemma block_header_regex_first:
  assumes "block_header_regex U line = Some (ident, tag, digits)"
  shows "def_regex U line = None" "def_regex_no_content U line = None" "line \<noteq> ustr ''~''"
proof -
  from assms have ne: "takeWhile (is_word U) line \<noteq> []"
    by (auto simp: block_header_regex_def Let_def split: list.splits if_splits)
  then obtain c r where line: "line = c # r" and w: "is_word U c"
    by (cases line) (auto split: if_splits)
  have "\<not> is_word U 64" "\<not> is_word U 126"
    by (simp_all add: is_word_def is_w_def is_digit_def)
  with w have c: "c \<noteq> 64" "c \<noteq> 126" by auto
  show "def_regex U line = None" "def_regex_no_content U line = None"
    using c(1) by (simp_all add: line def_regex_def def_regex_no_content_def split: list.splits)
  show "line \<noteq> ustr ''~''" using c(2) by (simp add: line ustr_def)
qed

text \<open>Outside a block a header with a count of at most 4300 digits is taken as one.\<close>

lemma step_v1_takes_header:
  assumes "\<not> in_block st" "block_header_regex U (rstrip_nl raw) = Some (ident, tag, digits)"
    and "length digits \<le> int_max_str_digits"
  shows "\<exists>st'. step_v1 U st k raw = Inr (BlockHeader, st') \<and>
           block_lines_remaining st' = decimal_value U digits"
proof -
  from block_header_regex_digits(1) [OF assms(2)] assms(3)
  have "int_of_digits U digits = Inr (decimal_value U digits)"
    by (simp add: int_of_digits_value)
  with assms block_header_regex_first [OF assms(2)] show ?thesis
    by (simp add: step_v1_def Let_def dispatch_v1_def)
qed

lemma step_v2_takes_header:
  assumes "\<not> in_block st" "block_header_regex U (rstrip_nl raw) = Some (ident, tag, digits)"
    and "length digits \<le> int_max_str_digits"
  shows "\<exists>st'. step_v2 U st k raw = Inr (BlockHeader, st') \<and>
           block_lines_remaining st' = decimal_value U digits"
proof -
  from block_header_regex_digits(1) [OF assms(2)] assms(3)
  have "int_of_digits U digits = Inr (decimal_value U digits)"
    by (simp add: int_of_digits_value)
  with assms block_header_regex_first [OF assms(2)] show ?thesis
    by (simp add: step_v2_def Let_def definitions_v2_def commands_v2_def)
qed

text \<open>What a block header leaves behind.\<close>

lemma step_v1_header:
  assumes "step_v1 U st k raw = Inr (BlockHeader, st')"
  shows "\<exists>ident tag digits.
           block_header_regex U (rstrip_nl raw) = Some (ident, tag, digits) \<and>
           length digits \<le> int_max_str_digits \<and>
           block_lines_remaining st' = decimal_value U digits \<and>
           (in_block st' \<longleftrightarrow> 0 < decimal_value U digits)"
  using assms by (cases rule: step_v1_elim) (auto simp: int_of_digits_value)

lemma step_v2_header:
  assumes "step_v2 U st k raw = Inr (BlockHeader, st')"
  shows "\<exists>ident tag digits.
           block_header_regex U (rstrip_nl raw) = Some (ident, tag, digits) \<and>
           length digits \<le> int_max_str_digits \<and>
           block_lines_remaining st' = decimal_value U digits \<and>
           (in_block st' \<longleftrightarrow> 0 < decimal_value U digits) \<and>
           \<not> parsing_definitions st'"
  using assms
proof (cases rule: step_v2_elim)
  case Commands
  from Commands(2) show ?thesis
    by (cases rule: commands_v2_elim) (auto simp: int_of_digits_value)
qed simp_all

text \<open>A step inside a block, away from line 0 and from the definitions phase.\<close>

lemma step_v1_in_block:
  "in_block st \<Longrightarrow> 0 < k \<Longrightarrow>
   step_v1 U st k raw =
     Inr (BlockBody, block_body_v1 U (st\<lparr>total_lines := total_lines st + 1\<rparr>) (rstrip_nl raw))"
  by (simp add: step_v1_def Let_def dispatch_v1_def)

lemma step_v2_in_block:
  "in_block st \<Longrightarrow> \<not> parsing_definitions st \<Longrightarrow> 0 < k \<Longrightarrow>
   step_v2 U st k raw =
     Inr (BlockBody, block_body_v2 U (st\<lparr>total_lines := total_lines st + 1\<rparr>) (rstrip_nl raw))"
  by (simp add: step_v2_def Let_def definitions_v2_def commands_v2_def)

lemma body_run_v1:
  assumes "in_block st" "0 < block_lines_remaining st" "0 < k"
    and "int (length body) \<le> block_lines_remaining st"
  shows "\<exists>st'. loop_v1 U st k body = Inr st' \<and>
           kinds_v1 U st k body = replicate (length body) BlockBody \<and>
           block_lines_remaining st' = block_lines_remaining st - int (length body) \<and>
           (in_block st' \<longleftrightarrow> int (length body) < block_lines_remaining st)"
  using assms
proof (induction body arbitrary: st k)
  case Nil
  then show ?case by simp
next
  case (Cons l ls)
  let ?st = "block_body_v1 U (st\<lparr>total_lines := total_lines st + 1\<rparr>) (rstrip_nl l)"
  have step: "step_v1 U st k l = Inr (BlockBody, ?st)"
    using Cons.prems by (intro step_v1_in_block)
  have r: "block_lines_remaining ?st = block_lines_remaining st - 1"
    and b: "in_block ?st \<longleftrightarrow> block_lines_remaining st - 1 \<noteq> 0"
    using Cons.prems by (simp_all add: block_body_v1_block)
  show ?case
  proof (cases ls)
    case Nil
    with step r b Cons.prems show ?thesis by auto
  next
    case (Cons l' ls')
    with Cons.prems r b have "in_block ?st" "0 < block_lines_remaining ?st"
      "int (length ls) \<le> block_lines_remaining ?st"
      by auto
    from Cons.IH [OF this(1,2) _ this(3), of "Suc k"] step r show ?thesis by auto
  qed
qed

lemma body_run_v2:
  assumes "in_block st" "\<not> parsing_definitions st" "0 < block_lines_remaining st" "0 < k"
    and "int (length body) \<le> block_lines_remaining st"
  shows "\<exists>st'. loop_v2 U st k body = Inr st' \<and>
           kinds_v2 U st k body = replicate (length body) BlockBody \<and>
           block_lines_remaining st' = block_lines_remaining st - int (length body) \<and>
           (in_block st' \<longleftrightarrow> int (length body) < block_lines_remaining st)"
  using assms
proof (induction body arbitrary: st k)
  case Nil
  then show ?case by simp
next
  case (Cons l ls)
  let ?st = "block_body_v2 U (st\<lparr>total_lines := total_lines st + 1\<rparr>) (rstrip_nl l)"
  have step: "step_v2 U st k l = Inr (BlockBody, ?st)"
    using Cons.prems by (intro step_v2_in_block)
  have r: "block_lines_remaining ?st = block_lines_remaining st - 1"
    and b: "in_block ?st \<longleftrightarrow> block_lines_remaining st - 1 \<noteq> 0"
    and p: "\<not> parsing_definitions ?st"
    using Cons.prems by (simp_all add: block_body_v2_block block_body_v2_keeps)
  show ?case
  proof (cases ls)
    case Nil
    with step r b Cons.prems show ?thesis by auto
  next
    case (Cons l' ls')
    with Cons.prems r b have "in_block ?st" "0 < block_lines_remaining ?st"
      "int (length ls) \<le> block_lines_remaining ?st"
      by auto
    from Cons.IH [OF this(1) p this(2) _ this(3), of "Suc k"] step r show ?thesis by auto
  qed
qed

text \<open>Outside a block no line is taken as a block-body line.\<close>

lemma step_v1_top_level:
  "\<not> in_block st \<Longrightarrow> step_v1 U st k raw \<noteq> Inr (BlockBody, st')"
  by (auto simp: step_v1_def Let_def dispatch_v1_def split: option.splits prod.splits sum.splits)

lemma step_v2_top_level:
  "\<not> in_block st \<Longrightarrow> step_v2 U st k raw \<noteq> Inr (BlockBody, st')"
  by (auto simp: step_v2_def Let_def definitions_v2_def commands_v2_def
      split: option.splits prod.splits sum.splits)

text \<open>The block state stays consistent along every run.\<close>

lemma step_v1_block_inv:
  "block_inv st \<Longrightarrow> step_v1 U st k raw = Inr (kind, st') \<Longrightarrow> block_inv st'"
  by (erule step_v1_elim)
     (auto simp: block_inv_def block_body_v1_block scan_v1_keeps int_of_digits_value
        decimal_value_nonneg order_less_le)

lemma commands_v2_block_inv:
  "block_inv st \<Longrightarrow> commands_v2 U st line = Inr (kind, st') \<Longrightarrow> block_inv st'"
  by (erule commands_v2_elim)
     (auto simp: block_inv_def block_body_v2_block scan_v2_keeps int_of_digits_value
        decimal_value_nonneg order_less_le)

lemma step_v2_block_inv:
  assumes "block_inv st" "step_v2 U st k raw = Inr (kind, st')"
  shows "block_inv st'"
  using assms(2)
proof (cases rule: step_v2_elim)
  case Commands
  have "block_inv (st\<lparr>total_lines := total_lines st + 1, parsing_definitions := False\<rparr>)"
    using assms(1) by (simp add: block_inv_def)
  then show ?thesis using Commands(2) by (rule commands_v2_block_inv)
qed (use assms(1) in \<open>simp_all add: block_inv_def record_definition_def Let_def\<close>)

lemma loop_v1_block_inv: "block_inv st \<Longrightarrow> loop_v1 U st k ls = Inr st' \<Longrightarrow> block_inv st'"
  by (rule loop_v1_invariant [where P = block_inv]) (auto intro: step_v1_block_inv)

lemma loop_v2_block_inv: "block_inv st \<Longrightarrow> loop_v2 U st k ls = Inr st' \<Longrightarrow> block_inv st'"
  by (rule loop_v2_invariant [where P = block_inv]) (auto intro: step_v2_block_inv)

text \<open>
  In the v1 analyzer a line of the header shape outside a block, with a count of at most
  4300 digits, is taken as a block header and sets the count of remaining lines to the
  decimal value N of the digits. After a header the count is not negative and a block is
  open exactly when N > 0. The next N lines (or all that are left, if fewer) are taken
  as block-body lines whatever their shape, the count goes down by one with each, and
  after the N-th the analyzer is outside the block. After a header with count 0, as
  outside a block in general, no line is taken as a block-body line. At the end of every
  run the count is not negative.
\<close>

theorem block_regions_v1:
  "(\<forall>st k raw ident tag digits.
      \<not> in_block st \<and> block_header_regex U (rstrip_nl raw) = Some (ident, tag, digits) \<and>
      length digits \<le> int_max_str_digits \<longrightarrow>
      (\<exists>st'. step_v1 U st k raw = Inr (BlockHeader, st') \<and>
         block_lines_remaining st' = decimal_value U digits)) \<and>
   (\<forall>st k hdr st' body.
      step_v1 U st k hdr = Inr (BlockHeader, st') \<and>
      int (length body) \<le> block_lines_remaining st' \<longrightarrow>
        (\<exists>ident tag digits.
           block_header_regex U (rstrip_nl hdr) = Some (ident, tag, digits) \<and>
           block_lines_remaining st' = decimal_value U digits) \<and>
        0 \<le> block_lines_remaining st' \<and>
        (in_block st' \<longleftrightarrow> 0 < block_lines_remaining st') \<and>
        (\<exists>st''. loop_v1 U st' (Suc k) body = Inr st'' \<and>
           kinds_v1 U st' (Suc k) body = replicate (length body) BlockBody \<and>
           block_lines_remaining st'' = block_lines_remaining st' - int (length body) \<and>
           (in_block st'' \<longleftrightarrow> int (length body) < block_lines_remaining st'))) \<and>
   (\<forall>st k hdr st' raw st''.
      step_v1 U st k hdr = Inr (BlockHeader, st') \<and> block_lines_remaining st' = 0 \<longrightarrow>
      \<not> in_block st' \<and> step_v1 U st' (Suc k) raw \<noteq> Inr (BlockBody, st'')) \<and>
   (\<forall>st k raw st'. \<not> in_block st \<longrightarrow> step_v1 U st k raw \<noteq> Inr (BlockBody, st')) \<and>
   (\<forall>ls st'. loop_v1 U (init_v1 n) 0 ls = Inr st' \<longrightarrow> 0 \<le> block_lines_remaining st')"
proof (intro conjI allI impI)
  fix st :: state_v1 and k :: nat and raw ident tag digits :: ustring
  assume "\<not> in_block st \<and> block_header_regex U (rstrip_nl raw) = Some (ident, tag, digits) \<and>
      length digits \<le> int_max_str_digits"
  then show "\<exists>st'. step_v1 U st k raw = Inr (BlockHeader, st') \<and>
         block_lines_remaining st' = decimal_value U digits"
    using step_v1_takes_header [of st U raw ident tag digits k] by blast
next
  fix st st' :: state_v1 and k :: nat and hdr :: ustring and body :: "ustring list"
  assume a: "step_v1 U st k hdr = Inr (BlockHeader, st') \<and>
      int (length body) \<le> block_lines_remaining st'"
  from a step_v1_header [of U st k hdr st'] obtain ident tag digits where
    h: "block_header_regex U (rstrip_nl hdr) = Some (ident, tag, digits)"
       "block_lines_remaining st' = decimal_value U digits"
       "in_block st' \<longleftrightarrow> 0 < decimal_value U digits"
    by blast
  have nn: "0 \<le> block_lines_remaining st'"
    using h(2) decimal_value_nonneg [of U digits] by simp
  have run: "\<exists>st''. loop_v1 U st' (Suc k) body = Inr st'' \<and>
           kinds_v1 U st' (Suc k) body = replicate (length body) BlockBody \<and>
           block_lines_remaining st'' = block_lines_remaining st' - int (length body) \<and>
           (in_block st'' \<longleftrightarrow> int (length body) < block_lines_remaining st')"
  proof (cases "0 < block_lines_remaining st'")
    case True
    with h have "in_block st'" by simp
    from body_run_v1 [OF this True _ conjunct2 [OF a], of "Suc k" U] show ?thesis by simp
  next
    case False
    with a have "int (length body) \<le> 0" by linarith
    then have "body = []" by simp
    with False h show ?thesis by simp
  qed
  show "\<exists>ident tag digits.
           block_header_regex U (rstrip_nl hdr) = Some (ident, tag, digits) \<and>
           block_lines_remaining st' = decimal_value U digits"
    using h by blast
  show "0 \<le> block_lines_remaining st'" by (rule nn)
  show "in_block st' \<longleftrightarrow> 0 < block_lines_remaining st'" using h by simp
  show "\<exists>st''. loop_v1 U st' (Suc k) body = Inr st'' \<and>
           kinds_v1 U st' (Suc k) body = replicate (length body) BlockBody \<and>
           block_lines_remaining st'' = block_lines_remaining st' - int (length body) \<and>
           (in_block st'' \<longleftrightarrow> int (length body) < block_lines_remaining st')"
    by (rule run)
next
  fix st st' st'' :: state_v1 and k :: nat and hdr raw :: ustring
  assume a: "step_v1 U st k hdr = Inr (BlockHeader, st') \<and> block_lines_remaining st' = 0"
  with step_v1_header [of U st k hdr st'] have b: "\<not> in_block st'" by auto
  then show "\<not> in_block st'" .
  from b show "step_v1 U st' (Suc k) raw \<noteq> Inr (BlockBody, st'')"
    by (rule step_v1_top_level)
next
  fix st st' :: state_v1 and k :: nat and raw :: ustring
  assume "\<not> in_block st"
  then show "step_v1 U st k raw \<noteq> Inr (BlockBody, st')" by (rule step_v1_top_level)
next
  fix ls and st' :: state_v1
  assume l: "loop_v1 U (init_v1 n) 0 ls = Inr st'"
  have "block_inv (init_v1 n)" by (simp add: block_inv_def init_v1_def)
  then have "block_inv st'" using l by (rule loop_v1_block_inv)
  then show "0 \<le> block_lines_remaining st'" by (simp add: block_inv_def)
qed

text \<open>
  In the v2 analyzer a line of the header shape outside a block, with a count of at most
  4300 digits, is taken as a block header and sets the count of remaining lines to the
  decimal value N of the digits. After a header the count is not negative and a block is
  open exactly when N > 0. The next N lines (or all that are left, if fewer) are taken
  as block-body lines whatever their shape, the count goes down by one with each, and
  after the N-th the analyzer is outside the block. After a header with count 0, as
  outside a block in general, no line is taken as a block-body line. At the end of every
  run the count is not negative.
\<close>

theorem block_regions_v2:
  "(\<forall>st k raw ident tag digits.
      \<not> in_block st \<and> block_header_regex U (rstrip_nl raw) = Some (ident, tag, digits) \<and>
      length digits \<le> int_max_str_digits \<longrightarrow>
      (\<exists>st'. step_v2 U st k raw = Inr (BlockHeader, st') \<and>
         block_lines_remaining st' = decimal_value U digits)) \<and>
   (\<forall>st k hdr st' body.
      step_v2 U st k hdr = Inr (BlockHeader, st') \<and>
      int (length body) \<le> block_lines_remaining st' \<longrightarrow>
        (\<exists>ident tag digits.
           block_header_regex U (rstrip_nl hdr) = Some (ident, tag, digits) \<and>
           block_lines_remaining st' = decimal_value U digits) \<and>
        0 \<le> block_lines_remaining st' \<and>
        (in_block st' \<longleftrightarrow> 0 < block_lines_remaining st') \<and>
        (\<exists>st''. loop_v2 U st' (Suc k) body = Inr st'' \<and>
           kinds_v2 U st' (Suc k) body = replicate (length body) BlockBody \<and>
           block_lines_remaining st'' = block_lines_remaining st' - int (length body) \<and>
           (in_block st'' \<longleftrightarrow> int (length body) < block_lines_remaining st'))) \<and>
   (\<forall>st k hdr st' raw st''.
      step_v2 U st k hdr = Inr (BlockHeader, st') \<and> block_lines_remaining st' = 0 \<longrightarrow>
      \<not> in_block st' \<and> step_v2 U st' (Suc k) raw \<noteq> Inr (BlockBody, st'')) \<and>
   (\<forall>st k raw st'. \<not> in_block st \<longrightarrow> step_v2 U st k raw \<noteq> Inr (BlockBody, st')) \<and>
   (\<forall>ls st'. loop_v2 U (init_v2 n) 0 ls = Inr st' \<longrightarrow> 0 \<le> block_lines_remaining st')"
proof (intro conjI allI impI)
  fix st :: state_v2 and k :: nat and raw ident tag digits :: ustring
  assume "\<not> in_block st \<and> block_header_regex U (rstrip_nl raw) = Some (ident, tag, digits) \<and>
      length digits \<le> int_max_str_digits"
  then show "\<exists>st'. step_v2 U st k raw = Inr (BlockHeader, st') \<and>
         block_lines_remaining st' = decimal_value U digits"
    using step_v2_takes_header [of st U raw ident tag digits k] by blast
next
  fix st st' :: state_v2 and k :: nat and hdr :: ustring and body :: "ustring list"
  assume a: "step_v2 U st k hdr = Inr (BlockHeader, st') \<and>
      int (length body) \<le> block_lines_remaining st'"
  from a step_v2_header [of U st k hdr st'] obtain ident tag digits where
    h: "block_header_regex U (rstrip_nl hdr) = Some (ident, tag, digits)"
       "block_lines_remaining st' = decimal_value U digits"
       "in_block st' \<longleftrightarrow> 0 < decimal_value U digits"
    by blast
  have pd: "\<not> parsing_definitions st'"
    using a step_v2_header [of U st k hdr st'] by blast
  have nn: "0 \<le> block_lines_remaining st'"
    using h(2) decimal_value_nonneg [of U digits] by simp
  have run: "\<exists>st''. loop_v2 U st' (Suc k) body = Inr st'' \<and>
           kinds_v2 U st' (Suc k) body = replicate (length body) BlockBody \<and>
           block_lines_remaining st'' = block_lines_remaining st' - int (length body) \<and>
           (in_block st'' \<longleftrightarrow> int (length body) < block_lines_remaining st')"
  proof (cases "0 < block_lines_remaining st'")
    case True
    with h have "in_block st'" by simp
    from body_run_v2 [OF this pd True _ conjunct2 [OF a], of "Suc k" U] show ?thesis by simp
  next
    case False
    with a have "int (length body) \<le> 0" by linarith
    then have "body = []" by simp
    with False h show ?thesis by simp
  qed
  show "\<exists>ident tag digits.
           block_header_regex U (rstrip_nl hdr) = Some (ident, tag, digits) \<and>
           block_lines_remaining st' = decimal_value U digits"
    using h by blast
  show "0 \<le> block_lines_remaining st'" by (rule nn)
  show "in_block st' \<longleftrightarrow> 0 < block_lines_remaining st'" using h by simp
  show "\<exists>st''. loop_v2 U st' (Suc k) body = Inr st'' \<and>
           kinds_v2 U st' (Suc k) body = replicate (length body) BlockBody \<and>
           block_lines_remaining st'' = block_lines_remaining st' - int (length body) \<and>
           (in_block st'' \<longleftrightarrow> int (length body) < block_lines_remaining st')"
    by (rule run)
next
  fix st st' st'' :: state_v2 and k :: nat and hdr raw :: ustring
  assume a: "step_v2 U st k hdr = Inr (BlockHeader, st') \<and> block_lines_remaining st' = 0"
  with step_v2_header [of U st k hdr st'] have b: "\<not> in_block st'" by auto
  then show "\<not> in_block st'" .
  from b show "step_v2 U st' (Suc k) raw \<noteq> Inr (BlockBody, st'')"
    by (rule step_v2_top_level)
next
  fix st st' :: state_v2 and k :: nat and raw :: ustring
  assume "\<not> in_block st"
  then show "step_v2 U st k raw \<noteq> Inr (BlockBody, st')" by (rule step_v2_top_level)
next
  fix ls and st' :: state_v2
  assume l: "loop_v2 U (init_v2 n) 0 ls = Inr st'"
  have "block_inv (init_v2 n)" by (simp add: block_inv_def init_v2_def)
  then have "block_inv st'" using l by (rule loop_v2_block_inv)
  then show "0 \<le> block_lines_remaining st'" by (simp add: block_inv_def)
qed

text \<open>
  The two files with a block header: scenario A, where the count is 1, and a header with
  count 0, after which the next line is an ordinary top-level line.
\<close>

lemma block_regions_examples:
  "kinds_v1 ascii_db (init_v1 21) 0 (readlines scenario_A) = [Definition, BlockHeader, BlockBody]"
  "kinds_v2 ascii_db (init_v2 21) 0 (readlines scenario_A) = [Definition, BlockHeader, BlockBody]"
  "kinds_v1 ascii_db (init_v1 12) 0 (readlines zero_count_file) = [BlockHeader, Other]"
  "kinds_v2 ascii_db (init_v2 12) 0 (readlines zero_count_file) = [BlockHeader, Other]"
  "decimal_value ascii_db (ustr ''0'') = 0"
  "decimal_value ascii_db (ustr ''120'') = 120"
  by (simp_all add: scenario_A_def zero_count_file_def eval_defs decimal_value_def
      lessThan_Suc numeral_3_eq_3)

section \<open>What a line adds to the usage counts\<close>










lemma scanned_Nil [simp]: "scanned U [] ls = []" "scanned U ks [] = []"
  by (simp_all add: scanned_def)

lemma scanned_Cons [simp]:
  "scanned U (k # ks) (l # ls) = line_usages U k l @ scanned U ks ls"
  by (simp add: scanned_def)





section \<open>C10: references inside the content of a definition\<close>









end
